theory Spec2Isabelle
  imports Complex_Main "HOL-Library.Multiset"
begin

section \<open>Numbers, objects and sorting as the JavaScript source uses them\<close>

text \<open>
  The analysers of \<^verbatim>\<open>src/analysis.js\<close> compute with JavaScript numbers. Integer
  quantities of the feed (points, minutes, gameweeks, identifiers) are modelled by \<open>int\<close>
  and \<open>nat\<close>; derived quantities (averages, scores, form) by exact rationals. A string
  field that the source only ever reads through \<^verbatim>\<open>parseFloat\<close> (form, ownership) is
  modelled by the number it denotes, and the string that \<^verbatim>\<open>toFixed\<close> renders by the
  decimal number it shows.
\<close>

text \<open>
  The numbers of the source are IEEE doubles, and in two places the binary rounding
  decides what is computed. \<^verbatim>\<open>toFixed\<close> rounds the double, not the number that was
  meant: \<^verbatim>\<open>(17 / 40).toFixed(2)\<close> is \<^verbatim>\<open>'0.42'\<close> because the double nearest to
  0.425 lies below it, while \<^verbatim>\<open>(1 / 8).toFixed(2)\<close> is \<^verbatim>\<open>'0.13'\<close>. And the
  comparator of the recommendations tests a difference of two totals against 0.5:
  \<^verbatim>\<open>1.1 - 0.6\<close> is above 0.5 in doubles, \<^verbatim>\<open>1.0 - 0.5\<close> is not. Away from an exact tie
  the doubles decide as the exact numbers do (the quantities of the feed are far from the
  magnitudes at which a double cannot tell two hundredths apart). What they decide at an
  exact tie is not computed by the model: it is a parameter, a value of the record
  \<open>Doubles\<close>, and every theorem below holds for each of its values.

  The double of a quotient of two integers is determined by the exact quotient, so
  \<open>tieUp\<close> has the number of decimals and the exact quotient as arguments. The double of
  a sum depends on the numbers added and their order, so \<open>totalUp\<close> and \<open>averageUp\<close>
  have the list of the scores that were added. The doubles of two two-decimal totals are
  determined by the totals, the arguments of \<open>overHalf\<close>.
\<close>

record Doubles =
  tieUp :: "nat \<Rightarrow> rat \<Rightarrow> bool"
  totalUp :: "rat list \<Rightarrow> bool"
  averageUp :: "rat list \<Rightarrow> bool"
  overHalf :: "rat \<Rightarrow> rat \<Rightarrow> bool"

text \<open>
  Rounding to the nearest integer; on an exact tie, upwards when \<open>up\<close> holds and
  downwards otherwise.
\<close>

definition roundHalf :: "bool \<Rightarrow> rat \<Rightarrow> int" where
  "roundHalf up s =
     (let n = \<lfloor>s\<rfloor>; r = s - of_int n
      in if r < 1 / 2 then n else if 1 / 2 < r then n + 1 else if up then n + 1 else n)"

text \<open>
  \<^verbatim>\<open>Number.prototype.toFixed(d)\<close>: the sign is split off, then the magnitude is rounded
  to the nearest multiple of \<open>10\<^sup>-\<^sup>d\<close>. When the exact magnitude is half-way between
  two multiples, the side on which its double lies decides: \<open>up\<close> tells it. For a
  quotient of two integers that is \<open>tieUp fp d\<close> of the quotient.
\<close>

definition toFixedOf :: "bool \<Rightarrow> nat \<Rightarrow> rat \<Rightarrow> rat" where
  "toFixedOf up d x =
     (if x < 0 then - (of_int (roundHalf up ((- x) * 10 ^ d)) / 10 ^ d)
      else of_int (roundHalf up (x * 10 ^ d)) / 10 ^ d)"

definition toFixed :: "Doubles \<Rightarrow> nat \<Rightarrow> rat \<Rightarrow> rat" where
  "toFixed fp d x = toFixedOf (tieUp fp d x) d x"

text \<open>
  The one division of the source whose denominator can be zero needs the non-finite
  results of JavaScript's \<^verbatim>\<open>/\<close>; \<^verbatim>\<open>toFixed\<close> renders them as they are.
\<close>

datatype jsnum = Num rat | NaN | PosInfinity | NegInfinity

definition js_div :: "rat \<Rightarrow> rat \<Rightarrow> jsnum" where
  "js_div a b =
     (if b = 0 then (if a = 0 then NaN else if 0 < a then PosInfinity else NegInfinity)
      else Num (a / b))"

fun js_toFixed :: "Doubles \<Rightarrow> nat \<Rightarrow> jsnum \<Rightarrow> jsnum" where
  "js_toFixed fp d (Num x) = Num (toFixed fp d x)"
| "js_toFixed fp d v = v"

text \<open>
  An object whose keys are non-negative integers enumerates them in ascending order
  whatever the order of the assignments. It is an association list kept in key order;
  assigning to a key that exists replaces the value in place.
\<close>

type_synonym 'v jsobj = "(nat \<times> 'v) list"

fun obj_put :: "nat \<Rightarrow> 'v \<Rightarrow> 'v jsobj \<Rightarrow> 'v jsobj" where
  "obj_put k v [] = [(k, v)]"
| "obj_put k v ((k', v') # r) =
     (if k < k' then (k, v) # (k', v') # r
      else if k = k' then (k, v) # r
      else (k', v') # obj_put k v r)"

definition obj_get :: "'v jsobj \<Rightarrow> nat \<Rightarrow> 'v option" where
  "obj_get ob k = map_of ob k"

definition obj_keys :: "'v jsobj \<Rightarrow> nat list" where
  "obj_keys ob = map fst ob"

definition obj_values :: "'v jsobj \<Rightarrow> 'v list" where
  "obj_values ob = map snd ob"

text \<open>
  \<^verbatim>\<open>Array.prototype.sort(compareFn)\<close> with a comparator that is consistent on the
  elements is a stable sort: an element goes before another when the comparator is
  negative, and elements on which it is zero keep their input order. There is exactly one
  such arrangement (\<open>stable_sorted_unique\<close> below), and the stable insertion sort
  \<open>sort_cmp\<close> computes it. The comparators of the source that are a difference of two
  integer keys are consistent (\<open>consistentOn_difference\<close>), and their sorts are
  \<open>sort_cmp\<close>.
\<close>

fun insort_cmp :: "('a \<Rightarrow> 'a \<Rightarrow> 'b::{zero,linorder}) \<Rightarrow> 'a \<Rightarrow> 'a list \<Rightarrow> 'a list" where
  "insort_cmp c x [] = [x]"
| "insort_cmp c x (y # ys) = (if c x y \<le> 0 then x # y # ys else y # insort_cmp c x ys)"

fun sort_cmp :: "('a \<Rightarrow> 'a \<Rightarrow> 'b::{zero,linorder}) \<Rightarrow> 'a list \<Rightarrow> 'a list" where
  "sort_cmp c [] = []"
| "sort_cmp c (x # xs) = insort_cmp c x (sort_cmp c xs)"

text \<open>
  A comparator is consistent on the elements of a list, in the words of the language
  standard, when it is zero on every element with itself, its zeros are symmetric, and
  its zeros, its negatives and its positives are each transitive. When it is not, the
  standard leaves the order of the result to the implementation: the result is some
  permutation of the input, and nothing more is promised. The implementation is the
  parameter \<open>engine\<close>; what it returns is the result when it is a permutation of the
  input, and an engine returns nothing else.
\<close>

definition consistentOn :: "('a \<Rightarrow> 'a \<Rightarrow> 'b::{zero,linorder}) \<Rightarrow> 'a list \<Rightarrow> bool" where
  "consistentOn c xs =
     ((\<forall>a \<in> set xs. c a a = 0) \<and>
      (\<forall>a \<in> set xs. \<forall>b \<in> set xs. c a b = 0 \<longrightarrow> c b a = 0) \<and>
      (\<forall>a \<in> set xs. \<forall>b \<in> set xs. \<forall>d \<in> set xs.
         (c a b = 0 \<and> c b d = 0 \<longrightarrow> c a d = 0) \<and>
         (c a b < 0 \<and> c b d < 0 \<longrightarrow> c a d < 0) \<and>
         (0 < c a b \<and> 0 < c b d \<longrightarrow> 0 < c a d)))"

definition arraySort ::
  "(('a \<Rightarrow> 'a \<Rightarrow> 'b) \<Rightarrow> 'a list \<Rightarrow> 'a list) \<Rightarrow> ('a \<Rightarrow> 'a \<Rightarrow> 'b::{zero,linorder}) \<Rightarrow> 'a list \<Rightarrow> 'a list" where
  "arraySort engine c xs =
     (if consistentOn c xs then sort_cmp c xs
      else if mset (engine c xs) = mset xs then engine c xs
      else xs)"

section \<open>The feed\<close>

text \<open>
  The records of the bootstrap, fixtures and element-summary endpoints, with the fields
  the analysers read. Field names are the feed's, prefixed where two records share one.
\<close>

record Team =
  team_id :: nat
  team_name :: string

record Player =
  player_id :: nat
  first_name :: string
  second_name :: string
  web_name :: string
  team :: nat
  element_type :: nat
  status :: string
  minutes :: int
  form :: rat
  total_points :: int
  now_cost :: int
  selected_by_percent :: rat
  goals_scored :: int
  assists :: int
  clean_sheets :: int

record Fixture =
  event :: "int option"
  team_h :: nat
  team_a :: nat
  finished :: bool
  started :: bool
  kickoff_time :: "int option"
  team_h_difficulty :: int
  team_a_difficulty :: int

record Gameweek =
  opponent_team :: nat
  gw_minutes :: int
  gw_total_points :: int

section \<open>FPLAnalyzer\<close>

subsection \<open>isRegularStarter\<close>

definition estimatedGamesPlayed :: "Player \<Rightarrow> int" where
  "estimatedGamesPlayed player = max 1 \<lceil>(of_int (minutes player) :: rat) / 90\<rceil>"

definition avgMinutesPerGame :: "Player \<Rightarrow> rat" where
  "avgMinutesPerGame player = of_int (minutes player) / of_int (estimatedGamesPlayed player)"

definition hasRecentPlayingTime :: "Player \<Rightarrow> bool" where
  "hasRecentPlayingTime player = (form player \<noteq> 0 \<or> 1800 \<le> minutes player)"

definition isRegularStarter :: "Player \<Rightarrow> bool" where
  "isRegularStarter player =
     (if minutes player < 450 then False
      else 60 \<le> avgMinutesPerGame player \<and> hasRecentPlayingTime player)"

subsection \<open>analyzeTeamPerformance\<close>

record TeamStats =
  ts_name :: string
  ts_totalPoints :: int
  playerCount :: nat
  averagePoints :: jsnum
  totalGoals :: int
  totalAssists :: int
  cleanSheets :: int

definition initTeamStats :: "Team list \<Rightarrow> TeamStats jsobj" where
  "initTeamStats teams =
     fold (\<lambda>team teamStats. obj_put (team_id team)
             \<lparr>ts_name = team_name team, ts_totalPoints = 0, playerCount = 0,
              averagePoints = Num 0, totalGoals = 0, totalAssists = 0, cleanSheets = 0\<rparr>
             teamStats)
       teams []"

definition addPlayerStats :: "Player \<Rightarrow> TeamStats jsobj \<Rightarrow> TeamStats jsobj" where
  "addPlayerStats player teamStats =
     (let teamId = team player in
      case obj_get teamStats teamId of
        None \<Rightarrow> teamStats
      | Some ts \<Rightarrow>
          obj_put teamId
            (ts\<lparr>ts_totalPoints := ts_totalPoints ts + total_points player,
                playerCount := playerCount ts + 1,
                totalGoals := totalGoals ts + goals_scored player,
                totalAssists := totalAssists ts + assists player,
                cleanSheets := cleanSheets ts + clean_sheets player\<rparr>)
            teamStats)"

definition calculateAverage :: "Doubles \<Rightarrow> TeamStats \<Rightarrow> TeamStats" where
  "calculateAverage fp ts =
     ts\<lparr>averagePoints :=
          js_toFixed fp 1 (js_div (of_int (ts_totalPoints ts)) (of_nat (playerCount ts)))\<rparr>"

definition analyzeTeamPerformance :: "Doubles \<Rightarrow> Team list \<Rightarrow> Player list \<Rightarrow> TeamStats list" where
  "analyzeTeamPerformance fp teams allPlayersData =
     (let teamStats = fold addPlayerStats allPlayersData (initTeamStats teams);
          teamStats = map (\<lambda>(teamId, ts). (teamId, calculateAverage fp ts)) teamStats
      in sort_cmp (\<lambda>a b. ts_totalPoints b - ts_totalPoints a) (obj_values teamStats))"

section \<open>TeamDefenseAnalyzer\<close>

text \<open>
  The constructor makes \<^verbatim>\<open>teamDefenseStats\<close> an object with exactly the keys 1 to 4, and no
  key is added later: a record of four tables, each keyed by team id. Indexing it with
  any other position gives \<^verbatim>\<open>undefined\<close>, and indexing that throws.
\<close>

datatype error = TypeError | FetchError

record Cell =
  cell_name :: string
  pointsAllowed :: int
  games :: nat

record TeamDefenseStats =
  stats1 :: "Cell jsobj"
  stats2 :: "Cell jsobj"
  stats3 :: "Cell jsobj"
  stats4 :: "Cell jsobj"

definition newTeamDefenseStats :: TeamDefenseStats where
  "newTeamDefenseStats = \<lparr>stats1 = [], stats2 = [], stats3 = [], stats4 = []\<rparr>"

definition statsAt :: "TeamDefenseStats \<Rightarrow> nat \<Rightarrow> Cell jsobj option" where
  "statsAt s position =
     (if position = 1 then Some (stats1 s)
      else if position = 2 then Some (stats2 s)
      else if position = 3 then Some (stats3 s)
      else if position = 4 then Some (stats4 s)
      else None)"

definition statsSet :: "nat \<Rightarrow> Cell jsobj \<Rightarrow> TeamDefenseStats \<Rightarrow> TeamDefenseStats" where
  "statsSet position tbl s =
     (if position = 1 then s\<lparr>stats1 := tbl\<rparr>
      else if position = 2 then s\<lparr>stats2 := tbl\<rparr>
      else if position = 3 then s\<lparr>stats3 := tbl\<rparr>
      else if position = 4 then s\<lparr>stats4 := tbl\<rparr>
      else s)"

subsection \<open>initialize\<close>

definition zeroCell :: "Team \<Rightarrow> Cell" where
  "zeroCell t = \<lparr>cell_name = team_name t, pointsAllowed = 0, games = 0\<rparr>"

definition initTeam :: "Team \<Rightarrow> TeamDefenseStats \<Rightarrow> TeamDefenseStats" where
  "initTeam t s =
     \<lparr>stats1 = obj_put (team_id t) (zeroCell t) (stats1 s),
      stats2 = obj_put (team_id t) (zeroCell t) (stats2 s),
      stats3 = obj_put (team_id t) (zeroCell t) (stats3 s),
      stats4 = obj_put (team_id t) (zeroCell t) (stats4 s)\<rparr>"

definition initialize :: "Team list \<Rightarrow> TeamDefenseStats" where
  "initialize teams = fold initTeam teams newTeamDefenseStats"

subsection \<open>processPlayerData\<close>

text \<open>
  The body of the \<^verbatim>\<open>forEach\<close> over the history. The condition is evaluated left to
  right: minutes, then the opponent id as a truth value (0 is falsy), then the cell, whose
  lookup throws when the player's position is not a key of the statistics.
\<close>

definition processGameweek :: "nat \<Rightarrow> TeamDefenseStats \<Rightarrow> Gameweek \<Rightarrow> error + TeamDefenseStats" where
  "processGameweek playerPosition s gameweek =
     (let opponentTeamId = opponent_team gameweek in
      if \<not> 0 < gw_minutes gameweek then Inr s
      else if opponentTeamId = 0 then Inr s
      else case statsAt s playerPosition of
          None \<Rightarrow> Inl TypeError
        | Some tbl \<Rightarrow>
            (case obj_get tbl opponentTeamId of
               None \<Rightarrow> Inr s
             | Some c \<Rightarrow>
                 Inr (statsSet playerPosition
                        (obj_put opponentTeamId
                           (c\<lparr>pointsAllowed := pointsAllowed c + gw_total_points gameweek,
                              games := games c + 1\<rparr>) tbl) s)))"

text \<open>
  A loop over a list whose body may throw: the state reached and the error, if any.
\<close>

fun forEach :: "('s \<Rightarrow> 'a \<Rightarrow> error + 's) \<Rightarrow> 'a list \<Rightarrow> 's \<Rightarrow> 's \<times> error option" where
  "forEach f [] s = (s, None)"
| "forEach f (x # xs) s = (case f s x of Inl e \<Rightarrow> (s, Some e) | Inr s' \<Rightarrow> forEach f xs s')"

text \<open>
  \<^verbatim>\<open>getPlayerData\<close> is the fetch of the element summary: it fails, or gives a summary
  whose \<^verbatim>\<open>history\<close> may be missing.
\<close>

type_synonym PlayerDataSource = "nat \<Rightarrow> error + Gameweek list option"

definition processPlayerData ::
  "Player list \<Rightarrow> PlayerDataSource \<Rightarrow> TeamDefenseStats \<Rightarrow> nat \<Rightarrow> TeamDefenseStats \<times> error option" where
  "processPlayerData allPlayersData getPlayerData s playerId =
     (case find (\<lambda>p. player_id p = playerId) allPlayersData of
        None \<Rightarrow> (s, None)
      | Some playerInfo \<Rightarrow>
          (case getPlayerData playerId of
             Inl e \<Rightarrow> (s, Some e)
           | Inr None \<Rightarrow> (s, None)
           | Inr (Some history) \<Rightarrow>
               if 0 < length history
               then forEach (processGameweek (element_type playerInfo)) history s
               else (s, None)))"

text \<open>
  The accumulator cell of a position and a team, if there is one; what a record of a
  player in position \<open>pos\<close> must satisfy to be counted; and a cell credited with a
  list of records.
\<close>

definition cellAt :: "TeamDefenseStats \<Rightarrow> nat \<Rightarrow> nat \<Rightarrow> Cell option" where
  "cellAt s pos teamId = (case statsAt s pos of None \<Rightarrow> None | Some tbl \<Rightarrow> obj_get tbl teamId)"

definition counts :: "TeamDefenseStats \<Rightarrow> nat \<Rightarrow> Gameweek \<Rightarrow> bool" where
  "counts s pos g =
     (0 < gw_minutes g \<and> opponent_team g \<noteq> 0 \<and> cellAt s pos (opponent_team g) \<noteq> None)"

definition countedFor :: "TeamDefenseStats \<Rightarrow> nat \<Rightarrow> Gameweek list \<Rightarrow> nat \<Rightarrow> nat \<Rightarrow> Gameweek list" where
  "countedFor s pos h q teamId =
     filter (\<lambda>g. counts s pos g \<and> q = pos \<and> opponent_team g = teamId) h"

definition credit :: "Gameweek list \<Rightarrow> Cell \<Rightarrow> Cell" where
  "credit gs c =
     c\<lparr>pointsAllowed := pointsAllowed c + sum_list (map gw_total_points gs),
       games := games c + length gs\<rparr>"

subsection \<open>calculateResults\<close>

record DefenseEntry =
  name :: string
  totalPointsAllowed :: int
  gamesPlayed :: nat
  avgPointsAllowedPerGame :: rat

record DefenseResults =
  goalkeepers :: "DefenseEntry list"
  defenders :: "DefenseEntry list"
  midfielders :: "DefenseEntry list"
  forwards :: "DefenseEntry list"

definition defenseEntry :: "Doubles \<Rightarrow> Cell \<Rightarrow> DefenseEntry" where
  "defenseEntry fp c =
     \<lparr>name = cell_name c, totalPointsAllowed = pointsAllowed c, gamesPlayed = games c,
      avgPointsAllowedPerGame = toFixed fp 2 (of_int (pointsAllowed c) / of_nat (games c))\<rparr>"

definition sortedTeams :: "Doubles \<Rightarrow> Cell jsobj \<Rightarrow> DefenseEntry list" where
  "sortedTeams fp teams =
     sort_cmp (\<lambda>a b. totalPointsAllowed b - totalPointsAllowed a)
       (map (defenseEntry fp) (filter (\<lambda>c. 0 < games c) (obj_values teams)))"

text \<open>
  The loop over the keys 1 to 4 of the statistics, written out. The division of
  \<open>defenseEntry\<close> is only reached for a cell that passed the filter \<open>games > 0\<close>.
\<close>

definition calculateResults :: "Doubles \<Rightarrow> TeamDefenseStats \<Rightarrow> DefenseResults" where
  "calculateResults fp s =
     \<lparr>goalkeepers = sortedTeams fp (stats1 s), defenders = sortedTeams fp (stats2 s),
      midfielders = sortedTeams fp (stats3 s), forwards = sortedTeams fp (stats4 s)\<rparr>"

text \<open>
  The ranked output as the specification words it. A number renders a quotient at two
  decimals when it is a multiple of 0.01 at most 0.005 away from it; an entry is the
  entry of a cell when it carries the cell's name, points and games, and a two-decimal
  rendering of points by games.
\<close>

definition rendersTwoDecimals :: "rat \<Rightarrow> rat \<Rightarrow> bool" where
  "rendersTwoDecimals q a = (of_int \<lfloor>a * 100\<rfloor> = a * 100 \<and> \<bar>a - q\<bar> \<le> 1 / 200)"

definition entryOfCell :: "DefenseEntry \<Rightarrow> Cell \<Rightarrow> bool" where
  "entryOfCell e c =
     (name e = cell_name c \<and> totalPointsAllowed e = pointsAllowed c \<and> gamesPlayed e = games c \<and>
      rendersTwoDecimals (of_int (pointsAllowed c) / of_nat (games c)) (avgPointsAllowedPerGame e))"

subsection \<open>analyzeTeamDefense\<close>

text \<open>
  Every player id of the bootstrap is processed; a player whose processing throws is
  logged and skipped. The players are taken in list order: each one's updates are applied
  in one piece after its fetch.
\<close>

definition processAll :: "Player list \<Rightarrow> PlayerDataSource \<Rightarrow> TeamDefenseStats \<Rightarrow> TeamDefenseStats" where
  "processAll allPlayersData getPlayerData s =
     fold (\<lambda>playerId s. fst (processPlayerData allPlayersData getPlayerData s playerId))
       (map player_id allPlayersData) s"

definition analyzeTeamDefense ::
  "Doubles \<Rightarrow> Team list \<Rightarrow> Player list \<Rightarrow> PlayerDataSource \<Rightarrow> DefenseResults" where
  "analyzeTeamDefense fp teams allPlayersData getPlayerData =
     calculateResults fp (processAll allPlayersData getPlayerData (initialize teams))"

section \<open>PlayerFixtureAnalyzer\<close>

text \<open>
  The analyser's fields after \<^verbatim>\<open>initialize\<close>: the defence results it was built with, the
  players and teams of the bootstrap, and the fixtures.
\<close>

record PlayerFixtureAnalyzer =
  defenseResults :: DefenseResults
  allPlayersData :: "Player list"
  fixtures :: "Fixture list"
  bootstrapTeams :: "Team list"

subsection \<open>getVulnerabilityScore\<close>

definition positionMap :: "nat \<Rightarrow> (DefenseResults \<Rightarrow> DefenseEntry list) option" where
  "positionMap position =
     (if position = 1 then Some goalkeepers
      else if position = 2 then Some defenders
      else if position = 3 then Some midfielders
      else if position = 4 then Some forwards
      else None)"

definition isTeam :: "Team list \<Rightarrow> nat \<Rightarrow> DefenseEntry \<Rightarrow> bool" where
  "isTeam teams teamId entry =
     (case find (\<lambda>t. team_name t = name entry) teams of
        None \<Rightarrow> False
      | Some bootstrapTeam \<Rightarrow> team_id bootstrapTeam = teamId)"

definition getVulnerabilityScore :: "PlayerFixtureAnalyzer \<Rightarrow> nat \<Rightarrow> nat \<Rightarrow> error + rat" where
  "getVulnerabilityScore this teamId position =
     (case positionMap position of
        None \<Rightarrow> Inl TypeError
      | Some field \<Rightarrow>
          (let positionData = field (defenseResults this);
               teamData = find (isTeam (bootstrapTeams this) teamId) positionData
           in case teamData of
                None \<Rightarrow> Inr 0
              | Some td \<Rightarrow>
                  (let avgPoints = avgPointsAllowedPerGame td
                   in Inr (min 10 (max 0 (avgPoints * (5 / 2)))))))"

text \<open>
  The scorer as the specification words it: 0 when the cell of the team and position is
  absent or has no games, otherwise the two-decimal average times 2.5, clamped to
  \<open>[0, 10]\<close>. The two-decimal average is the rendering of points by games, whichever
  way its ties fall.
\<close>

definition clamp :: "rat \<Rightarrow> rat \<Rightarrow> rat \<Rightarrow> rat" where
  "clamp x lo hi = (if x < lo then lo else if hi < x then hi else x)"

definition score_spec :: "Doubles \<Rightarrow> TeamDefenseStats \<Rightarrow> nat \<Rightarrow> nat \<Rightarrow> rat" where
  "score_spec fp s teamId positionId =
     (case cellAt s positionId teamId of
        None \<Rightarrow> 0
      | Some c \<Rightarrow>
          if games c = 0 then 0
          else clamp (toFixed fp 2 (of_int (pointsAllowed c) / of_nat (games c)) * (5 / 2)) 0 10)"

text \<open>
  A table of the statistics belongs to a list of teams when its keys are in ascending
  order and every cell carries the name of a listed team with the cell's key as id.
\<close>

definition wfTable :: "Team list \<Rightarrow> Cell jsobj \<Rightarrow> bool" where
  "wfTable teams tbl =
     (sorted_wrt (<) (obj_keys tbl) \<and>
      (\<forall>(k, c) \<in> set tbl. \<exists>t \<in> set teams. team_id t = k \<and> team_name t = cell_name c))"

definition wfStats :: "Team list \<Rightarrow> TeamDefenseStats \<Rightarrow> bool" where
  "wfStats teams s =
     (wfTable teams (stats1 s) \<and> wfTable teams (stats2 s) \<and>
      wfTable teams (stats3 s) \<and> wfTable teams (stats4 s))"

subsection \<open>getCurrentGameweek\<close>

text \<open>
  A gameweek value is \<^verbatim>\<open>null\<close> (a fixture not yet scheduled), a number, or the
  \<^verbatim>\<open>-Infinity\<close> that \<^verbatim>\<open>Math.max()\<close> of no arguments returns. A kickoff time is the
  timestamp that \<^verbatim>\<open>new Date\<close> reads from it; \<^verbatim>\<open>new Date(null)\<close> is the epoch.
\<close>

datatype gwnum = GwNull | GwNum int | GwNegInfinity

definition eventValue :: "Fixture \<Rightarrow> gwnum" where
  "eventValue f = (case event f of None \<Rightarrow> GwNull | Some g \<Rightarrow> GwNum g)"

definition eventOrZero :: "Fixture \<Rightarrow> int" where
  "eventOrZero f = (case event f of None \<Rightarrow> 0 | Some g \<Rightarrow> g)"

definition newDate :: "int option \<Rightarrow> int" where
  "newDate k = (case k of None \<Rightarrow> 0 | Some t \<Rightarrow> t)"

fun mathMax :: "int list \<Rightarrow> int option" where
  "mathMax [] = None"
| "mathMax (x # xs) = Some (fold max xs x)"

definition upcomingFixtures :: "Fixture list \<Rightarrow> Fixture list" where
  "upcomingFixtures fs =
     sort_cmp (\<lambda>a b. newDate (kickoff_time a) - newDate (kickoff_time b))
       (filter (\<lambda>f. finished f = False \<and> started f = False) fs)"

definition getCurrentGameweek :: "PlayerFixtureAnalyzer \<Rightarrow> gwnum" where
  "getCurrentGameweek this =
     (case upcomingFixtures (fixtures this) of
        f # _ \<Rightarrow> eventValue f
      | [] \<Rightarrow>
          (case mathMax (map eventOrZero (fixtures this)) of
             None \<Rightarrow> GwNegInfinity
           | Some maxGameweek \<Rightarrow> GwNum (min 38 (maxGameweek + 1))))"

text \<open>
  The specification's words. The kickoff of a fixture is its timestamp, the epoch when it
  has none. The maximum observed gameweek is a number that no fixture's gameweek exceeds
  and that one fixture has, an unscheduled fixture counting as gameweek 0.
\<close>

definition kickoff :: "Fixture \<Rightarrow> int" where
  "kickoff f = (case kickoff_time f of None \<Rightarrow> 0 | Some t \<Rightarrow> t)"

definition maxObserved :: "Fixture list \<Rightarrow> int \<Rightarrow> bool" where
  "maxObserved fs m =
     ((\<exists>f \<in> set fs. event f = Some m \<or> (event f = None \<and> m = 0)) \<and>
      (\<forall>f \<in> set fs. case event f of None \<Rightarrow> 0 \<le> m | Some g \<Rightarrow> g \<le> m))"

subsection \<open>getPlayerUpcomingFixtures\<close>

record UpcomingFixture =
  gameweek :: "int option"
  opponent :: string
  opponentId :: nat
  isHome :: bool
  difficulty :: int
  vulnerabilityScore :: rat

text \<open>\<^verbatim>\<open>currentGameweek + i\<close>: \<^verbatim>\<open>null\<close> counts as 0, \<^verbatim>\<open>-Infinity\<close> stays.\<close>

fun gwPlus :: "gwnum \<Rightarrow> nat \<Rightarrow> gwnum" where
  "gwPlus GwNull i = GwNum (int i)"
| "gwPlus (GwNum c) i = GwNum (c + int i)"
| "gwPlus GwNegInfinity i = GwNegInfinity"

definition targetGameweeks :: "gwnum \<Rightarrow> nat \<Rightarrow> gwnum list" where
  "targetGameweeks currentGameweek gameweeksAhead =
     map (\<lambda>i. gwPlus currentGameweek i) [0 ..< gameweeksAhead]"

definition inHorizon :: "gwnum list \<Rightarrow> Player \<Rightarrow> Fixture \<Rightarrow> bool" where
  "inHorizon targets player fixture =
     (eventValue fixture \<in> set targets \<and>
      (team_a fixture = team player \<or> team_h fixture = team player) \<and>
      \<not> finished fixture)"

definition teamNameOrUnknown :: "Team list \<Rightarrow> nat \<Rightarrow> string" where
  "teamNameOrUnknown teams teamId =
     (case find (\<lambda>t. team_id t = teamId) teams of
        None \<Rightarrow> ''Unknown''
      | Some t \<Rightarrow> team_name t)"

definition upcomingFixture :: "PlayerFixtureAnalyzer \<Rightarrow> Player \<Rightarrow> Fixture \<Rightarrow> error + UpcomingFixture" where
  "upcomingFixture this player fixture =
     (let home = (team_h fixture = team player);
          oppId = (if home then team_a fixture else team_h fixture)
      in case getVulnerabilityScore this oppId (element_type player) of
           Inl e \<Rightarrow> Inl e
         | Inr v \<Rightarrow>
             Inr \<lparr>gameweek = event fixture,
                  opponent = teamNameOrUnknown (bootstrapTeams this) oppId,
                  opponentId = oppId,
                  isHome = home,
                  difficulty = (if home then team_h_difficulty fixture else team_a_difficulty fixture),
                  vulnerabilityScore = v\<rparr>)"

text \<open>\<^verbatim>\<open>Array.prototype.map\<close> with a callback that may throw.\<close>

fun mapE :: "('a \<Rightarrow> error + 'b) \<Rightarrow> 'a list \<Rightarrow> error + 'b list" where
  "mapE f [] = Inr []"
| "mapE f (x # xs) =
     (case f x of
        Inl e \<Rightarrow> Inl e
      | Inr y \<Rightarrow> (case mapE f xs of Inl e \<Rightarrow> Inl e | Inr ys \<Rightarrow> Inr (y # ys)))"

definition gameweekOrZero :: "UpcomingFixture \<Rightarrow> int" where
  "gameweekOrZero u = (case gameweek u of None \<Rightarrow> 0 | Some g \<Rightarrow> g)"

definition getPlayerUpcomingFixtures ::
  "PlayerFixtureAnalyzer \<Rightarrow> nat \<Rightarrow> nat \<Rightarrow> error + UpcomingFixture list" where
  "getPlayerUpcomingFixtures this playerId gameweeksAhead =
     (case find (\<lambda>p. player_id p = playerId) (allPlayersData this) of
        None \<Rightarrow> Inr []
      | Some player \<Rightarrow>
          (let currentGameweek = getCurrentGameweek this;
               targets = targetGameweeks currentGameweek gameweeksAhead
           in case mapE (upcomingFixture this player)
                     (filter (inHorizon targets player) (fixtures this)) of
                Inl e \<Rightarrow> Inl e
              | Inr us \<Rightarrow> Inr (sort_cmp (\<lambda>a b. gameweekOrZero a - gameweekOrZero b) us)))"

text \<open>
  The specification's reading. The target gameweeks of a horizon of \<open>n\<close> are
  \<open>current, ..., current + n - 1\<close> (a \<^verbatim>\<open>null\<close> current gameweek counts as 0 in the
  addition, and nothing is a target when it is \<^verbatim>\<open>-Infinity\<close>); a fixture qualifies when
  its gameweek is a target, the player's team is on either side, and it is not finished;
  the entry recorded for a fixture has its gameweek, the opponent, the home flag, the
  difficulty of the player's side and the opponent's vulnerability score. The opponent's
  name is that of the first listed team with the opponent's id, \<^verbatim>\<open>'Unknown'\<close> when no
  team has it.
\<close>

definition namesById :: "Team list \<Rightarrow> nat \<Rightarrow> string option" where
  "namesById teams = map_of (map (\<lambda>t. (team_id t, team_name t)) teams)"

definition opponentName :: "Team list \<Rightarrow> nat \<Rightarrow> string" where
  "opponentName teams k = (case namesById teams k of None \<Rightarrow> ''Unknown'' | Some n \<Rightarrow> n)"

fun horizon :: "gwnum \<Rightarrow> nat \<Rightarrow> int set" where
  "horizon (GwNum c) n = {c ..< c + int n}"
| "horizon GwNull n = {0 ..< int n}"
| "horizon GwNegInfinity n = {}"

definition qualifies :: "gwnum \<Rightarrow> nat \<Rightarrow> Player \<Rightarrow> Fixture \<Rightarrow> bool" where
  "qualifies current n player f =
     ((case event f of None \<Rightarrow> False | Some g \<Rightarrow> g \<in> horizon current n) \<and>
      (team_h f = team player \<or> team_a f = team player) \<and>
      \<not> finished f)"

definition fixtureEntry :: "PlayerFixtureAnalyzer \<Rightarrow> Player \<Rightarrow> Fixture \<Rightarrow> UpcomingFixture" where
  "fixtureEntry this player f =
     (if team_h f = team player
      then \<lparr>gameweek = event f,
            opponent = opponentName (bootstrapTeams this) (team_a f),
            opponentId = team_a f, isHome = True, difficulty = team_h_difficulty f,
            vulnerabilityScore =
              (case getVulnerabilityScore this (team_a f) (element_type player) of
                 Inl e \<Rightarrow> 0 | Inr v \<Rightarrow> v)\<rparr>
      else \<lparr>gameweek = event f,
            opponent = opponentName (bootstrapTeams this) (team_h f),
            opponentId = team_h f, isHome = False, difficulty = team_a_difficulty f,
            vulnerabilityScore =
              (case getVulnerabilityScore this (team_h f) (element_type player) of
                 Inl e \<Rightarrow> 0 | Inr v \<Rightarrow> v)\<rparr>)"

subsection \<open>analyzeTimeHorizon\<close>

record PlayerAnalysis =
  pa_id :: nat
  pa_name :: string
  webName :: string
  pa_team :: string
  position :: string
  positionId :: nat
  cost :: rat
  totalPoints :: int
  pa_form :: rat
  fixturesCount :: nat
  totalVulnerabilityScore :: rat
  avgVulnerabilityScore :: rat
  pa_fixtures :: "UpcomingFixture list"
  selectedBy :: rat

record Positions =
  Goalkeeper :: "PlayerAnalysis list"
  Defender :: "PlayerAnalysis list"
  Midfielder :: "PlayerAnalysis list"
  Forward :: "PlayerAnalysis list"

definition getPositionName :: "nat \<Rightarrow> string" where
  "getPositionName elementType =
     (if elementType = 1 then ''Goalkeeper''
      else if elementType = 2 then ''Defender''
      else if elementType = 3 then ''Midfielder''
      else if elementType = 4 then ''Forward''
      else ''Unknown'')"

definition eligible :: "Player \<Rightarrow> bool" where
  "eligible player = (status player = ''a'' \<and> 200 < minutes player)"

definition analyzePlayer ::
  "Doubles \<Rightarrow> PlayerFixtureAnalyzer \<Rightarrow> nat \<Rightarrow> Player \<Rightarrow> error + PlayerAnalysis" where
  "analyzePlayer fp this gameweeksAhead player =
     (case getPlayerUpcomingFixtures this (player_id player) gameweeksAhead of
        Inl e \<Rightarrow> Inl e
      | Inr fs \<Rightarrow>
          (let totalVulnerability = foldl (\<lambda>sum fixture. sum + vulnerabilityScore fixture) 0 fs;
               avgVulnerability =
                 (if 0 < length fs then totalVulnerability / of_nat (length fs) else 0);
               scores = map vulnerabilityScore fs
           in Inr \<lparr>pa_id = player_id player,
                   pa_name = first_name player @ '' '' @ second_name player,
                   webName = web_name player,
                   pa_team =
                     (case find (\<lambda>t. team_id t = team player) (bootstrapTeams this) of
                        None \<Rightarrow> ''Unknown''
                      | Some t \<Rightarrow> if team_name t = [] then ''Unknown'' else team_name t),
                   position = getPositionName (element_type player),
                   positionId = element_type player,
                   cost = of_int (now_cost player) / 10,
                   totalPoints = total_points player,
                   pa_form = form player,
                   fixturesCount = length fs,
                   totalVulnerabilityScore = toFixedOf (totalUp fp scores) 2 totalVulnerability,
                   avgVulnerabilityScore = toFixedOf (averageUp fp scores) 2 avgVulnerability,
                   pa_fixtures = fs,
                   selectedBy = selected_by_percent player\<rparr>))"

text \<open>
  The comparator passed to \<^verbatim>\<open>sort\<close> for every position list. The totals are the
  two-decimal numbers that \<^verbatim>\<open>toFixed(2)\<close> rendered, so the exact difference of two of
  them is a multiple of 0.01, and the difference of their doubles is on the same side of
  0.5 as the exact one unless the exact one is 0.5 itself. There \<open>overHalf fp\<close> tells
  whether the doubles differ by more than 0.5; it is asked with the two totals in
  ascending order, since the double difference only changes its sign when its operands
  are exchanged. The sign of the value returned is that of the exact difference.
\<close>

definition absExceedsHalf :: "Doubles \<Rightarrow> rat \<Rightarrow> rat \<Rightarrow> bool" where
  "absExceedsHalf fp x y =
     (if \<bar>y - x\<bar> = 1 / 2 then overHalf fp (min x y) (max x y) else 1 / 2 < \<bar>y - x\<bar>)"

definition compareRecommendations :: "Doubles \<Rightarrow> PlayerAnalysis \<Rightarrow> PlayerAnalysis \<Rightarrow> rat" where
  "compareRecommendations fp a b =
     (let scoreDiff = totalVulnerabilityScore b - totalVulnerabilityScore a
      in if absExceedsHalf fp (totalVulnerabilityScore a) (totalVulnerabilityScore b)
         then scoreDiff
         else pa_form b - pa_form a)"

text \<open>
  Two players are tied on the first key when their totals differ by less than 0.5; a list
  is clustered when no two of its totals differ by exactly 0.5 and being tied is
  transitive among its players. Two players have the same keys when both the total and
  the form agree.
\<close>

definition tied :: "PlayerAnalysis \<Rightarrow> PlayerAnalysis \<Rightarrow> bool" where
  "tied a b = (\<bar>totalVulnerabilityScore b - totalVulnerabilityScore a\<bar> < 1 / 2)"

definition clustered :: "PlayerAnalysis list \<Rightarrow> bool" where
  "clustered xs =
     ((\<forall>a \<in> set xs. \<forall>b \<in> set xs.
         \<bar>totalVulnerabilityScore b - totalVulnerabilityScore a\<bar> \<noteq> 1 / 2) \<and>
      (\<forall>a \<in> set xs. \<forall>b \<in> set xs. \<forall>d \<in> set xs. tied a b \<and> tied b d \<longrightarrow> tied a d))"

definition sameKeys :: "PlayerAnalysis \<Rightarrow> PlayerAnalysis \<Rightarrow> bool" where
  "sameKeys k p =
     (totalVulnerabilityScore p = totalVulnerabilityScore k \<and> pa_form p = pa_form k)"

text \<open>
  The sort of a position list. Its comparator is not consistent on every list, so the
  engine has its say.
\<close>

type_synonym SortEngine =
  "(PlayerAnalysis \<Rightarrow> PlayerAnalysis \<Rightarrow> rat) \<Rightarrow> PlayerAnalysis list \<Rightarrow> PlayerAnalysis list"

definition rankPosition :: "Doubles \<Rightarrow> SortEngine \<Rightarrow> PlayerAnalysis list \<Rightarrow> nat \<Rightarrow> PlayerAnalysis list" where
  "rankPosition fp engine playerAnalysis k =
     arraySort engine (compareRecommendations fp) (filter (\<lambda>p. positionId p = k) playerAnalysis)"

definition analyzeTimeHorizon ::
  "Doubles \<Rightarrow> SortEngine \<Rightarrow> PlayerFixtureAnalyzer \<Rightarrow> nat \<Rightarrow> error + Positions" where
  "analyzeTimeHorizon fp engine this gameweeksAhead =
     (case mapE (analyzePlayer fp this gameweeksAhead) (filter eligible (allPlayersData this)) of
        Inl e \<Rightarrow> Inl e
      | Inr analysed \<Rightarrow>
          (let playerAnalysis = filter (\<lambda>p. 0 < fixturesCount p) analysed
           in Inr \<lparr>Goalkeeper = rankPosition fp engine playerAnalysis 1,
                   Defender = rankPosition fp engine playerAnalysis 2,
                   Midfielder = rankPosition fp engine playerAnalysis 3,
                   Forward = rankPosition fp engine playerAnalysis 4\<rparr>))"

text \<open>The list of a position in the result, and all ranked entries.\<close>

definition positionList :: "Positions \<Rightarrow> nat \<Rightarrow> PlayerAnalysis list" where
  "positionList res k =
     (if k = 1 then Goalkeeper res
      else if k = 2 then Defender res
      else if k = 3 then Midfielder res
      else if k = 4 then Forward res
      else [])"

definition ranked :: "Positions \<Rightarrow> PlayerAnalysis list" where
  "ranked res = Goalkeeper res @ Defender res @ Midfielder res @ Forward res"

section \<open>Sample data\<close>

text \<open>
  One way the doubles may fall, and one engine, for the examples; no example has a value
  at an exact tie or a list on which the comparator is inconsistent, except where that is
  the point.
\<close>

definition halfUp :: Doubles where
  "halfUp =
     \<lparr>tieUp = (\<lambda>d x. True), totalUp = (\<lambda>scores. True), averageUp = (\<lambda>scores. True),
      overHalf = (\<lambda>x y. False)\<rparr>"

definition reversing :: SortEngine where
  "reversing c xs = rev xs"

definition samplePick :: "nat \<Rightarrow> rat \<Rightarrow> rat \<Rightarrow> PlayerAnalysis" where
  "samplePick i tot frm =
     \<lparr>pa_id = i, pa_name = ''Sam Sample'', webName = ''Sample'', pa_team = ''Team'',
      position = ''Forward'', positionId = 4, cost = 7, totalPoints = 50, pa_form = frm,
      fixturesCount = 1, totalVulnerabilityScore = tot, avgVulnerabilityScore = tot,
      pa_fixtures = [], selectedBy = 10\<rparr>"

definition pickA :: PlayerAnalysis where "pickA = samplePick 1 1 1"
definition pickB :: PlayerAnalysis where "pickB = samplePick 2 (3 / 5) 2"
definition pickC :: PlayerAnalysis where "pickC = samplePick 3 (1 / 5) 3"

definition starter_900 :: Player where
  "starter_900 =
     \<lparr>player_id = 7, first_name = ''Ada'', second_name = ''Byron'', web_name = ''Byron'',
      team = 1, element_type = 4, status = ''a'', minutes = 900, form = 3, total_points = 60,
      now_cost = 75, selected_by_percent = 12, goals_scored = 5, assists = 2,
      clean_sheets = 0\<rparr>"

definition teamZero :: Team where
  "teamZero = \<lparr>team_id = 0, team_name = ''Zero FC''\<rparr>"

definition teamX :: Team where
  "teamX = \<lparr>team_id = 3, team_name = ''Team X''\<rparr>"

definition forward9 :: Player where
  "forward9 = starter_900\<lparr>player_id := 9, element_type := 4, team := 5\<rparr>"

definition record8 :: "nat \<Rightarrow> Gameweek" where
  "record8 opp = \<lparr>opponent_team = opp, gw_minutes = 90, gw_total_points = 8\<rparr>"

text \<open>A data source that gives every player the same history.\<close>

definition sameHistory :: "Gameweek list \<Rightarrow> PlayerDataSource" where
  "sameHistory h i = Inr (Some h)"

text \<open>
  A small season: two teams, a forward in each, one record each (8 points against
  Team X, 1 point against Team Y), and three fixtures between the two teams, the first
  of them played.
\<close>

definition teamY :: Team where
  "teamY = \<lparr>team_id = 5, team_name = ''Team Y''\<rparr>"

definition forward8 :: Player where
  "forward8 = starter_900\<lparr>player_id := 8, element_type := 4, team := 3\<rparr>"

definition record1 :: "nat \<Rightarrow> Gameweek" where
  "record1 opp = \<lparr>opponent_team = opp, gw_minutes = 90, gw_total_points = 1\<rparr>"

definition sampleTeams :: "Team list" where
  "sampleTeams = [teamX, teamY]"

definition samplePlayers :: "Player list" where
  "samplePlayers = [forward9, forward8]"

definition sampleSource :: PlayerDataSource where
  "sampleSource i =
     (if i = 9 then Inr (Some [record8 3])
      else if i = 8 then Inr (Some [record1 5])
      else Inl FetchError)"

definition sampleStats :: TeamDefenseStats where
  "sampleStats = processAll samplePlayers sampleSource (initialize sampleTeams)"

definition fixture9 :: Fixture where
  "fixture9 =
     \<lparr>event = Some 9, team_h = 5, team_a = 3, finished = True, started = True,
      kickoff_time = Some 500, team_h_difficulty = 2, team_a_difficulty = 4\<rparr>"

definition fixture10 :: Fixture where
  "fixture10 =
     \<lparr>event = Some 10, team_h = 5, team_a = 3, finished = False, started = False,
      kickoff_time = Some 1000, team_h_difficulty = 2, team_a_difficulty = 4\<rparr>"

definition fixture11 :: Fixture where
  "fixture11 =
     \<lparr>event = Some 11, team_h = 3, team_a = 5, finished = False, started = False,
      kickoff_time = Some 2000, team_h_difficulty = 3, team_a_difficulty = 5\<rparr>"

definition sampleAnalyzer :: PlayerFixtureAnalyzer where
  "sampleAnalyzer =
     \<lparr>defenseResults = calculateResults halfUp sampleStats, allPlayersData = samplePlayers,
      fixtures = [fixture11, fixture9, fixture10], bootstrapTeams = sampleTeams\<rparr>"

definition seasonEnd :: PlayerFixtureAnalyzer where
  "seasonEnd = sampleAnalyzer\<lparr>fixtures := [fixture9, fixture9\<lparr>event := Some 38\<rparr>]\<rparr>"

definition noFixtures :: PlayerFixtureAnalyzer where
  "noFixtures = sampleAnalyzer\<lparr>fixtures := []\<rparr>"

text \<open>
  The same season with three players: the forward of Team Y, a regular of a team without
  fixtures, and a player with 100 minutes.
\<close>

definition horizonAnalyzer :: PlayerFixtureAnalyzer where
  "horizonAnalyzer =
     sampleAnalyzer\<lparr>allPlayersData :=
       [forward9, starter_900, forward9\<lparr>player_id := 6, minutes := 100\<rparr>]\<rparr>"

text \<open>Two teams with one name, and a forward with 8 points against the second.\<close>

definition twinTeams :: "Team list" where
  "twinTeams = [\<lparr>team_id = 4, team_name = ''Twin''\<rparr>, \<lparr>team_id = 6, team_name = ''Twin''\<rparr>]"

definition twinStats :: TeamDefenseStats where
  "twinStats = processAll [forward9] (sameHistory [record8 6]) (initialize twinTeams)"

definition twinAnalyzer :: PlayerFixtureAnalyzer where
  "twinAnalyzer =
     \<lparr>defenseResults = calculateResults halfUp twinStats, allPlayersData = [forward9],
      fixtures = [], bootstrapTeams = twinTeams\<rparr>"

text \<open>
  The two teams of one name again, now with a game each: 3 points allowed by the second,
  1 point by the first.
\<close>

definition record3 :: "nat \<Rightarrow> Gameweek" where
  "record3 opp = \<lparr>opponent_team = opp, gw_minutes = 90, gw_total_points = 3\<rparr>"

definition twinSource :: PlayerDataSource where
  "twinSource i = (if i = 9 then Inr (Some [record3 6]) else Inr (Some [record1 4]))"

definition twinSeason :: TeamDefenseStats where
  "twinSeason = processAll [forward9, forward8] twinSource (initialize twinTeams)"

definition twinSeasonAnalyzer :: PlayerFixtureAnalyzer where
  "twinSeasonAnalyzer =
     \<lparr>defenseResults = calculateResults halfUp twinSeason, allPlayersData = [forward9, forward8],
      fixtures = [], bootstrapTeams = twinTeams\<rparr>"

section \<open>Properties\<close>

subsection \<open>Sorting with a comparator\<close>

lemma mset_insort_cmp: "mset (insort_cmp c x ys) = add_mset x (mset ys)"
  by (induction ys) auto

lemma mset_sort_cmp: "mset (sort_cmp c xs) = mset xs"
  by (induction xs) (auto simp: mset_insort_cmp)

lemma set_insort_cmp: "set (insort_cmp c x ys) = insert x (set ys)"
  by (induction ys) auto

lemma set_sort_cmp: "set (sort_cmp c xs) = set xs"
  by (induction xs) (auto simp: set_insort_cmp)

lemma length_sort_cmp: "length (sort_cmp c xs) = length xs"
  by (metis mset_sort_cmp size_mset)

text \<open>
  A comparator orders a set of elements when, on that set, "not after" is transitive and
  any two elements are comparable.
\<close>

lemma sorted_insort_cmp:
  assumes tr: "\<And>a b d. a \<in> S \<Longrightarrow> b \<in> S \<Longrightarrow> d \<in> S \<Longrightarrow> c a b \<le> 0 \<Longrightarrow> c b d \<le> 0 \<Longrightarrow> c a d \<le> 0"
    and tot: "\<And>a b. a \<in> S \<Longrightarrow> b \<in> S \<Longrightarrow> c a b \<le> 0 \<or> c b a \<le> 0"
    and "x \<in> S" "set ys \<subseteq> S" "sorted_wrt (\<lambda>a b. c a b \<le> 0) ys"
  shows "sorted_wrt (\<lambda>a b. c a b \<le> 0) (insort_cmp c x ys)"
  using assms(3-)
proof (induction ys)
  case Nil
  then show ?case by simp
next
  case (Cons y ys)
  have xS: "x \<in> S" and yS: "y \<in> S" and ysS: "set ys \<subseteq> S"
    using Cons.prems by auto
  have sys: "sorted_wrt (\<lambda>a b. c a b \<le> 0) ys" and yle: "\<forall>z\<in>set ys. c y z \<le> 0"
    using Cons.prems by auto
  show ?case
  proof (cases "c x y \<le> 0")
    case True
    have "c x z \<le> 0" if "z \<in> set ys" for z
    proof -
      have "z \<in> S" using that ysS by blast
      moreover have "c y z \<le> 0" using that yle by blast
      ultimately show ?thesis using tr [OF xS yS _ True] by blast
    qed
    with True yle sys show ?thesis by simp
  next
    case False
    then have "c y x \<le> 0"
      using tot [OF xS yS] by blast
    moreover have "sorted_wrt (\<lambda>a b. c a b \<le> 0) (insort_cmp c x ys)"
      using Cons.IH [OF xS ysS sys] .
    ultimately show ?thesis
      using False yle by (simp add: set_insort_cmp)
  qed
qed

lemma sorted_sort_cmp:
  assumes tr: "\<And>a b d. a \<in> S \<Longrightarrow> b \<in> S \<Longrightarrow> d \<in> S \<Longrightarrow> c a b \<le> 0 \<Longrightarrow> c b d \<le> 0 \<Longrightarrow> c a d \<le> 0"
    and tot: "\<And>a b. a \<in> S \<Longrightarrow> b \<in> S \<Longrightarrow> c a b \<le> 0 \<or> c b a \<le> 0"
    and sub: "set xs \<subseteq> S"
  shows "sorted_wrt (\<lambda>a b. c a b \<le> 0) (sort_cmp c xs)"
  using sub
proof (induction xs)
  case Nil
  show ?case by simp
next
  case (Cons x xs)
  have xS: "x \<in> S" and xsS: "set (sort_cmp c xs) \<subseteq> S"
    using Cons.prems by (auto simp: set_sort_cmp)
  have "set xs \<subseteq> S" using Cons.prems by auto
  then have srt: "sorted_wrt (\<lambda>a b. c a b \<le> 0) (sort_cmp c xs)"
    by (rule Cons.IH)
  have "sorted_wrt (\<lambda>a b. c a b \<le> 0) (insort_cmp c x (sort_cmp c xs))"
  proof (rule sorted_insort_cmp [where S = S and c = c])
    show "x \<in> S" by (rule xS)
    show "set (sort_cmp c xs) \<subseteq> S" by (rule xsS)
    show "sorted_wrt (\<lambda>a b. c a b \<le> 0) (sort_cmp c xs)" by (rule srt)
    show "\<And>a b d. a \<in> S \<Longrightarrow> b \<in> S \<Longrightarrow> d \<in> S \<Longrightarrow> c a b \<le> 0 \<Longrightarrow> c b d \<le> 0 \<Longrightarrow> c a d \<le> 0"
      by (rule tr)
    show "\<And>a b. a \<in> S \<Longrightarrow> b \<in> S \<Longrightarrow> c a b \<le> 0 \<or> c b a \<le> 0"
      by (rule tot)
  qed
  then show ?case by simp
qed

text \<open>
  Stability: a class of elements that the comparator does not separate keeps its input
  order.
\<close>

lemma filter_insort_cmp_triv: "\<not> P x \<Longrightarrow> filter P (insort_cmp c x ys) = filter P ys"
  by (induction ys) auto

lemma filter_insort_cmp:
  assumes "P x" and "\<And>y. y \<in> set ys \<Longrightarrow> P y \<Longrightarrow> c x y \<le> 0"
  shows "filter P (insort_cmp c x ys) = x # filter P ys"
  using assms by (induction ys) auto

lemma filter_sort_cmp:
  assumes "\<And>x y. x \<in> set xs \<Longrightarrow> y \<in> set xs \<Longrightarrow> P x \<Longrightarrow> P y \<Longrightarrow> c x y \<le> 0"
  shows "filter P (sort_cmp c xs) = filter P xs"
  using assms
proof (induction xs)
  case Nil
  show ?case by simp
next
  case (Cons x xs)
  have IH: "filter P (sort_cmp c xs) = filter P xs"
  proof (rule Cons.IH)
    fix a b
    assume "a \<in> set xs" "b \<in> set xs" "P a" "P b"
    then show "c a b \<le> 0"
      using Cons.prems [of a b] by simp
  qed
  show ?case
  proof (cases "P x")
    case True
    have "filter P (insort_cmp c x (sort_cmp c xs)) = x # filter P (sort_cmp c xs)"
    proof (rule filter_insort_cmp [where P = P and c = c, OF True])
      fix y
      assume "y \<in> set (sort_cmp c xs)" "P y"
      then have "y \<in> set (x # xs)" by (simp add: set_sort_cmp)
      then show "c x y \<le> 0"
        using Cons.prems [of x y] True \<open>P y\<close> by simp
    qed
    with True IH show ?thesis by simp
  next
    case False
    with IH show ?thesis by (simp add: filter_insort_cmp_triv)
  qed
qed

text \<open>
  On a set that the comparator orders, the sorted and stable arrangement of a list is
  unique: any stable sort returns it.
\<close>

lemma stable_sorted_unique:
  assumes tr: "\<And>a b d. a \<in> S \<Longrightarrow> b \<in> S \<Longrightarrow> d \<in> S \<Longrightarrow> c a b \<le> 0 \<Longrightarrow> c b d \<le> 0 \<Longrightarrow> c a d \<le> 0"
    and rf: "\<And>a. a \<in> S \<Longrightarrow> c a a \<le> 0"
    and "set ys \<subseteq> S" "mset ys = mset zs"
    and "sorted_wrt (\<lambda>a b. c a b \<le> 0) ys" "sorted_wrt (\<lambda>a b. c a b \<le> 0) zs"
    and "\<forall>k \<in> S. filter (\<lambda>y. c k y \<le> 0 \<and> c y k \<le> 0) ys
                   = filter (\<lambda>y. c k y \<le> 0 \<and> c y k \<le> 0) zs"
  shows "ys = zs"
  using assms(3-)
proof (induction ys arbitrary: zs)
  case Nil
  then show ?case by simp
next
  case (Cons y ys)
  let ?E = "\<lambda>k x. c k x \<le> 0 \<and> c x k \<le> 0"
  have yS: "y \<in> S" and ysS: "set ys \<subseteq> S"
    using Cons.prems(1) by auto
  have "zs \<noteq> []"
    using Cons.prems(2) by auto
  then obtain z zs' where zs: "zs = z # zs'"
    by (cases zs) auto
  have "set (y # ys) = set zs"
    using Cons.prems(2) by (metis set_mset_mset)
  then have zin: "z = y \<or> z \<in> set ys" and yin: "y = z \<or> y \<in> set zs'"
    unfolding zs by auto
  have yz: "c y z \<le> 0"
    using zin Cons.prems(3) rf [OF yS] by auto
  have zy: "c z y \<le> 0"
    using yin Cons.prems(4) rf [OF yS] unfolding zs by auto
  have fy: "filter (?E y) (y # ys) = y # filter (?E y) ys"
    using rf [OF yS] by simp
  have fz: "filter (?E y) zs = z # filter (?E y) zs'"
    using yz zy unfolding zs by simp
  have "filter (?E y) (y # ys) = filter (?E y) zs"
    using Cons.prems(5) yS by blast
  then have "y # filter (?E y) ys = z # filter (?E y) zs'"
    unfolding fy fz .
  then have eq: "y = z" by (rule list.inject [THEN iffD1, THEN conjunct1])
  have "ys = zs'"
  proof (rule Cons.IH)
    show "set ys \<subseteq> S" by (rule ysS)
    show "mset ys = mset zs'"
      using Cons.prems(2) unfolding zs eq by simp
    show "sorted_wrt (\<lambda>a b. c a b \<le> 0) ys"
      using Cons.prems(3) by simp
    show "sorted_wrt (\<lambda>a b. c a b \<le> 0) zs'"
      using Cons.prems(4) unfolding zs by simp
    show "\<forall>k \<in> S. filter (?E k) ys = filter (?E k) zs'"
    proof
      fix k
      assume "k \<in> S"
      then have "filter (?E k) (y # ys) = filter (?E k) (y # zs')"
        using Cons.prems(5) unfolding zs eq by blast
      then show "filter (?E k) ys = filter (?E k) zs'"
        by (cases "?E k y") simp_all
    qed
  qed
  with eq zs show ?case by simp
qed

text \<open>Two comparators that agree on the elements of a list sort it alike.\<close>

lemma insort_cmp_cong:
  assumes "\<And>y. y \<in> set ys \<Longrightarrow> c x y = c' x y"
  shows "insort_cmp c x ys = insort_cmp c' x ys"
  using assms by (induction ys) auto

lemma sort_cmp_cong:
  assumes "\<And>a b. a \<in> set xs \<Longrightarrow> b \<in> set xs \<Longrightarrow> c a b = c' a b"
  shows "sort_cmp c xs = sort_cmp c' xs"
  using assms
proof (induction xs)
  case Nil
  show ?case by simp
next
  case (Cons x xs)
  have IH: "sort_cmp c xs = sort_cmp c' xs"
    by (rule Cons.IH) (simp add: Cons.prems)
  have "insort_cmp c x (sort_cmp c' xs) = insort_cmp c' x (sort_cmp c' xs)"
    by (rule insort_cmp_cong) (simp add: set_sort_cmp Cons.prems)
  with IH show ?case by simp
qed

text \<open>
  The sort of the language: always a permutation, and the stable insertion sort where the
  comparator is consistent. A difference of integer keys is consistent on every list.
\<close>

lemma mset_arraySort: "mset (arraySort engine c xs) = mset xs"
  by (simp add: arraySort_def mset_sort_cmp)

lemma set_arraySort: "set (arraySort engine c xs) = set xs"
  by (metis mset_arraySort set_mset_mset)

lemma arraySort_consistent: "consistentOn c xs \<Longrightarrow> arraySort engine c xs = sort_cmp c xs"
  by (simp add: arraySort_def)

lemma consistentOn_difference:
  fixes f :: "'a \<Rightarrow> int"
  shows "consistentOn (\<lambda>a b. f a - f b) xs" "consistentOn (\<lambda>a b. f b - f a) xs"
  by (simp_all add: consistentOn_def)


subsection \<open>Rounding to a fixed number of decimals\<close>

text \<open>
  Whatever the ties do, the rounded integer is within one half of the number, an integer
  is rounded to itself, and rounding is monotone.
\<close>

lemma roundHalf_upper: "of_int (roundHalf up s) \<le> s + 1 / 2"
proof -
  have "of_int \<lfloor>s\<rfloor> \<le> s" by (rule of_int_floor_le)
  then show ?thesis
    by (simp add: roundHalf_def Let_def) linarith
qed

lemma roundHalf_lower: "s - 1 / 2 \<le> of_int (roundHalf up s)"
proof -
  have "s < of_int \<lfloor>s\<rfloor> + 1" using floor_correct [of s] by simp
  then show ?thesis
    by (simp add: roundHalf_def Let_def)
qed

lemma roundHalf_of_int: "roundHalf up (of_int n) = n"
  by (simp add: roundHalf_def)

lemma roundHalf_less:
  assumes "s < t"
  shows "roundHalf u s \<le> roundHalf v t"
proof -
  have "(of_int (roundHalf u s) :: rat) \<le> s + 1 / 2" by (rule roundHalf_upper)
  also have "\<dots> < t + 1 / 2" using assms by simp
  also have "\<dots> \<le> of_int (roundHalf v t) + 1"
    using roundHalf_lower [of t v] by linarith
  finally have "(of_int (roundHalf u s) :: rat) < of_int (roundHalf v t + 1)" by simp
  then have "roundHalf u s < roundHalf v t + 1" by (simp only: of_int_less_iff)
  then show ?thesis by simp
qed

lemma roundHalf_nonneg:
  assumes "0 \<le> s"
  shows "0 \<le> roundHalf up s"
proof -
  have "(- 1 :: rat) < of_int (roundHalf up s)"
    using roundHalf_lower [of s up] assms by linarith
  then have "(of_int (- 1) :: rat) < of_int (roundHalf up s)" by simp
  then have "- 1 < roundHalf up s" by (simp only: of_int_less_iff)
  then show ?thesis by simp
qed

text \<open>A number that already has \<open>d\<close> decimals is rendered as it is.\<close>

lemma toFixed_of_grid: "toFixed fp d (of_int n / 10 ^ d) = of_int n / 10 ^ d"
proof (cases "n < 0")
  case True
  then have neg: "(of_int n :: rat) / 10 ^ d < 0"
    by (simp add: divide_neg_pos)
  have "- ((of_int n :: rat) / 10 ^ d) * 10 ^ d = of_int (- n)"
    by simp
  then have "roundHalf up (- ((of_int n :: rat) / 10 ^ d) * 10 ^ d) = - n" for up
    by (simp only: roundHalf_of_int)
  with neg show ?thesis
    by (simp add: toFixed_def toFixedOf_def)
next
  case False
  then have nonneg: "\<not> (of_int n :: rat) / 10 ^ d < 0"
    by (simp add: not_less)
  have "((of_int n :: rat) / 10 ^ d) * 10 ^ d = of_int n"
    by simp
  then have "roundHalf up (((of_int n :: rat) / 10 ^ d) * 10 ^ d) = n" for up
    by (simp only: roundHalf_of_int)
  with nonneg show ?thesis
    by (simp add: toFixed_def toFixedOf_def)
qed

lemma toFixed_nonneg:
  assumes "0 \<le> x"
  shows "0 \<le> toFixed fp d x"
proof -
  have "0 \<le> x * 10 ^ d" using assms by simp
  then have "0 \<le> roundHalf (tieUp fp d x) (x * 10 ^ d)" by (rule roundHalf_nonneg)
  with assms show ?thesis by (simp add: toFixed_def toFixedOf_def not_less)
qed

lemma toFixed_nonpos:
  assumes "x < 0"
  shows "toFixed fp d x \<le> 0"
proof -
  have "0 \<le> (- x) * 10 ^ d" using assms by (intro mult_nonneg_nonneg) simp_all
  then have "0 \<le> roundHalf (tieUp fp d x) ((- x) * 10 ^ d)" by (rule roundHalf_nonneg)
  with assms show ?thesis by (simp add: toFixed_def toFixedOf_def)
qed

lemma toFixed_mono:
  assumes "x \<le> y"
  shows "toFixed fp d x \<le> toFixed fp d y"
proof (cases "x = y")
  case True
  then show ?thesis by simp
next
  case False
  with assms have less: "x < y" by simp
  have p: "(0::rat) < 10 ^ d" by simp
  consider "x < 0" "y < 0" | "x < 0" "0 \<le> y" | "0 \<le> x" "0 \<le> y"
    using assms by linarith
  then show ?thesis
  proof cases
    case 1
    have "(- y) * 10 ^ d < (- x) * 10 ^ d"
      using less p by simp
    then have "roundHalf (tieUp fp d y) ((- y) * 10 ^ d)
        \<le> roundHalf (tieUp fp d x) ((- x) * 10 ^ d)"
      by (rule roundHalf_less)
    then have "(of_int (roundHalf (tieUp fp d y) ((- y) * 10 ^ d)) :: rat) / 10 ^ d
        \<le> of_int (roundHalf (tieUp fp d x) ((- x) * 10 ^ d)) / 10 ^ d"
      using p by (simp add: divide_right_mono)
    with 1 show ?thesis
      by (simp add: toFixed_def toFixedOf_def)
  next
    case 2
    have "toFixed fp d x \<le> 0" using 2(1) by (rule toFixed_nonpos)
    moreover have "0 \<le> toFixed fp d y" using 2(2) by (rule toFixed_nonneg)
    ultimately show ?thesis by linarith
  next
    case 3
    have "x * 10 ^ d < y * 10 ^ d"
      using less p by simp
    then have "roundHalf (tieUp fp d x) (x * 10 ^ d) \<le> roundHalf (tieUp fp d y) (y * 10 ^ d)"
      by (rule roundHalf_less)
    then have "(of_int (roundHalf (tieUp fp d x) (x * 10 ^ d)) :: rat) / 10 ^ d
        \<le> of_int (roundHalf (tieUp fp d y) (y * 10 ^ d)) / 10 ^ d"
      using p by (simp add: divide_right_mono)
    with 3 show ?thesis
      by (simp add: toFixed_def toFixedOf_def not_less)
  qed
qed

text \<open>
  The rendering at two decimals is a multiple of 0.01 at most 0.005 away from the number.
\<close>

lemma toFixed_2_grid: "\<exists>n::int. toFixed fp 2 x = of_int n / 100"
  by (cases "x < 0") (simp_all add: toFixed_def toFixedOf_def, metis of_int_minus)

lemma toFixed_2_close: "\<bar>toFixed fp 2 x - x\<bar> \<le> 1 / 200"
proof (cases "x < 0")
  case True
  define r where "r = roundHalf (tieUp fp 2 x) ((- x) * 100)"
  have "of_int r \<le> (- x) * 100 + 1 / 2" "(- x) * 100 - 1 / 2 \<le> of_int r"
    unfolding r_def by (rule roundHalf_upper, rule roundHalf_lower)
  then have "\<bar>- (of_int r / 100) - x\<bar> \<le> 1 / 200"
    by linarith
  with True show ?thesis by (simp add: toFixed_def toFixedOf_def r_def)
next
  case False
  define r where "r = roundHalf (tieUp fp 2 x) (x * 100)"
  have "of_int r \<le> x * 100 + 1 / 2" "x * 100 - 1 / 2 \<le> of_int r"
    unfolding r_def by (rule roundHalf_upper, rule roundHalf_lower)
  then have "\<bar>of_int r / 100 - x\<bar> \<le> 1 / 200"
    by linarith
  with False show ?thesis by (simp add: toFixed_def toFixedOf_def r_def)
qed

lemma rendersTwoDecimals_toFixed: "rendersTwoDecimals x (toFixed fp 2 x)"
proof -
  obtain n :: int where n: "toFixed fp 2 x = of_int n / 100"
    using toFixed_2_grid by blast
  have g: "(of_int \<lfloor>toFixed fp 2 x * 100\<rfloor> :: rat) = toFixed fp 2 x * 100"
    unfolding n by simp
  show ?thesis
    unfolding rendersTwoDecimals_def
    by (rule conjI, rule g, rule toFixed_2_close)
qed
subsection \<open>The recommendation comparator\<close>

lemma absExceedsHalf_commute: "absExceedsHalf fp x y = absExceedsHalf fp y x"
  by (simp add: absExceedsHalf_def abs_minus_commute min.commute max.commute)

lemma compareRecommendations_antisym:
  "compareRecommendations fp a b = - compareRecommendations fp b a"
  using absExceedsHalf_commute [of fp "totalVulnerabilityScore a" "totalVulnerabilityScore b"]
  by (simp add: compareRecommendations_def Let_def)

lemma compareRecommendations_total:
  "compareRecommendations fp a b \<le> 0 \<or> compareRecommendations fp b a \<le> 0"
  using compareRecommendations_antisym [of fp a b] by linarith

lemma compareRecommendations_sameKeys:
  "sameKeys k a \<Longrightarrow> sameKeys k b \<Longrightarrow> compareRecommendations fp a b = 0"
  by (simp add: sameKeys_def compareRecommendations_def absExceedsHalf_def)

text \<open>
  The comparator is the two-tier comparison of the specification: by the totals when they
  differ by more than 0.5, by form when they differ by less, and one of the two when they
  differ by exactly 0.5.
\<close>

lemma compareRecommendations_two_tier:
  "(1 / 2 < \<bar>totalVulnerabilityScore b - totalVulnerabilityScore a\<bar> \<longrightarrow>
      compareRecommendations fp a b = totalVulnerabilityScore b - totalVulnerabilityScore a) \<and>
   (\<bar>totalVulnerabilityScore b - totalVulnerabilityScore a\<bar> < 1 / 2 \<longrightarrow>
      compareRecommendations fp a b = pa_form b - pa_form a) \<and>
   (compareRecommendations fp a b = totalVulnerabilityScore b - totalVulnerabilityScore a \<or>
    compareRecommendations fp a b = pa_form b - pa_form a)"
  by (simp add: compareRecommendations_def absExceedsHalf_def Let_def)

text \<open>
  On a clustered list no two totals differ by exactly 0.5, so the comparator is the
  two-tier comparison of the exact numbers, whatever the doubles do at a tie.
\<close>

lemma compareRecommendations_exact:
  assumes "clustered xs" "a \<in> set xs" "b \<in> set xs"
  shows "compareRecommendations fp a b =
     (if \<bar>totalVulnerabilityScore b - totalVulnerabilityScore a\<bar> > 1 / 2
      then totalVulnerabilityScore b - totalVulnerabilityScore a
      else pa_form b - pa_form a)"
proof -
  have "\<bar>totalVulnerabilityScore b - totalVulnerabilityScore a\<bar> \<noteq> 1 / 2"
    using assms unfolding clustered_def by blast
  then show ?thesis
    by (simp add: compareRecommendations_def absExceedsHalf_def Let_def)
qed

lemma tied_le_half:
  assumes "clustered xs" "a \<in> set xs" "b \<in> set xs"
  shows "tied a b = (\<bar>totalVulnerabilityScore b - totalVulnerabilityScore a\<bar> \<le> 1 / 2)"
proof -
  have "\<bar>totalVulnerabilityScore b - totalVulnerabilityScore a\<bar> \<noteq> 1 / 2"
    using assms unfolding clustered_def by blast
  then show ?thesis
    unfolding tied_def by linarith
qed

lemma two_tier_trans:
  fixes ta tb td fa fb fd :: rat
  assumes c1: "\<bar>tb - ta\<bar> \<le> 1 / 2 \<and> \<bar>td - tb\<bar> \<le> 1 / 2 \<longrightarrow> \<bar>td - ta\<bar> \<le> 1 / 2"
    and c2: "\<bar>td - ta\<bar> \<le> 1 / 2 \<and> \<bar>tb - td\<bar> \<le> 1 / 2 \<longrightarrow> \<bar>tb - ta\<bar> \<le> 1 / 2"
    and c3: "\<bar>ta - tb\<bar> \<le> 1 / 2 \<and> \<bar>td - ta\<bar> \<le> 1 / 2 \<longrightarrow> \<bar>td - tb\<bar> \<le> 1 / 2"
    and ab: "(if \<bar>tb - ta\<bar> > 1 / 2 then tb - ta else fb - fa) \<le> 0"
    and bd: "(if \<bar>td - tb\<bar> > 1 / 2 then td - tb else fd - fb) \<le> 0"
  shows "(if \<bar>td - ta\<bar> > 1 / 2 then td - ta else fd - fa) \<le> 0"
proof (cases "\<bar>tb - ta\<bar> > 1 / 2")
  case far_ab: True
  then have "tb - ta \<le> 0" using ab by simp
  with far_ab have lt_ab: "tb - ta < - (1 / 2)" by linarith
  show ?thesis
  proof (cases "\<bar>td - tb\<bar> > 1 / 2")
    case True
    then have "td - tb \<le> 0" using bd by simp
    with True have "td - tb < - (1 / 2)" by linarith
    with lt_ab have "td - ta < - 1" by linarith
    then have "\<bar>td - ta\<bar> > 1 / 2" "td - ta \<le> 0" by linarith+
    then show ?thesis by simp
  next
    case False
    then have near_bd: "\<bar>tb - td\<bar> \<le> 1 / 2" by linarith
    with c2 far_ab have far: "\<bar>td - ta\<bar> > 1 / 2" by linarith
    have "td - ta \<le> 0" using near_bd lt_ab by linarith
    with far show ?thesis by simp
  qed
next
  case near_ab: False
  then have f_ab: "fb - fa \<le> 0" using ab by simp
  have near_ba: "\<bar>ta - tb\<bar> \<le> 1 / 2" using near_ab by linarith
  show ?thesis
  proof (cases "\<bar>td - tb\<bar> > 1 / 2")
    case True
    then have "td - tb \<le> 0" using bd by simp
    with True have lt_bd: "td - tb < - (1 / 2)" by linarith
    from c3 near_ba True have far: "\<bar>td - ta\<bar> > 1 / 2" by linarith
    have "td - ta \<le> 0" using near_ba lt_bd by linarith
    with far show ?thesis by simp
  next
    case False
    then have "fd - fb \<le> 0" using bd by simp
    moreover have "\<bar>td - ta\<bar> \<le> 1 / 2" using c1 near_ab False by linarith
    ultimately show ?thesis using f_ab by simp
  qed
qed

lemma compareRecommendations_trans:
  assumes cl: "clustered xs" and a: "a \<in> set xs" and b: "b \<in> set xs" and d: "d \<in> set xs"
    and ab: "compareRecommendations fp a b \<le> 0" and bd: "compareRecommendations fp b d \<le> 0"
  shows "compareRecommendations fp a d \<le> 0"
proof -
  have "tied a b \<and> tied b d \<longrightarrow> tied a d" "tied a d \<and> tied d b \<longrightarrow> tied a b"
    "tied b a \<and> tied a d \<longrightarrow> tied b d"
    using cl a b d unfolding clustered_def by blast+
  then have "(if \<bar>totalVulnerabilityScore d - totalVulnerabilityScore a\<bar> > 1 / 2
      then totalVulnerabilityScore d - totalVulnerabilityScore a
      else pa_form d - pa_form a) \<le> 0"
    using ab bd
    unfolding tied_le_half [OF cl a b] tied_le_half [OF cl b d] tied_le_half [OF cl a d]
      tied_le_half [OF cl d b] tied_le_half [OF cl b a]
      compareRecommendations_exact [OF cl a b] compareRecommendations_exact [OF cl b d]
    by (rule two_tier_trans)
  then show ?thesis
    unfolding compareRecommendations_exact [OF cl a d] .
qed

lemma compareRecommendations_tie_iff:
  "(compareRecommendations fp k y \<le> 0 \<and> compareRecommendations fp y k \<le> 0)
     = (compareRecommendations fp k y = 0)"
  using compareRecommendations_antisym [of fp k y] by linarith

text \<open>On a clustered list the comparator is consistent in the sense of the language.\<close>

lemma consistent_on_clustered:
  assumes cl: "clustered xs"
  shows "consistentOn (compareRecommendations fp) xs"
proof -
  let ?c = "compareRecommendations fp"
  have refl: "?c a a = 0" for a
    using compareRecommendations_antisym [of fp a a] by simp
  have sym: "?c a b = 0 \<longrightarrow> ?c b a = 0" for a b
    using compareRecommendations_antisym [of fp a b] by simp
  have tr: "?c a d \<le> 0" if "a \<in> set xs" "b \<in> set xs" "d \<in> set xs" "?c a b \<le> 0" "?c b d \<le> 0"
    for a b d
    using cl that by (rule compareRecommendations_trans)
  have three: "(?c a b = 0 \<and> ?c b d = 0 \<longrightarrow> ?c a d = 0) \<and>
      (?c a b < 0 \<and> ?c b d < 0 \<longrightarrow> ?c a d < 0) \<and>
      (0 < ?c a b \<and> 0 < ?c b d \<longrightarrow> 0 < ?c a d)"
    if a: "a \<in> set xs" and b: "b \<in> set xs" and d: "d \<in> set xs" for a b d
  proof (intro conjI impI)
    assume h: "?c a b = 0 \<and> ?c b d = 0"
    then have "?c a d \<le> 0"
      using tr [OF a b d] by simp
    moreover have "?c d b \<le> 0" "?c b a \<le> 0"
      using h compareRecommendations_antisym [of fp d b] compareRecommendations_antisym [of fp b a]
      by simp_all
    then have "?c d a \<le> 0"
      by (rule tr [OF d b a])
    then have "0 \<le> ?c a d"
      using compareRecommendations_antisym [of fp a d] by simp
    ultimately show "?c a d = 0" by simp
  next
    assume h: "?c a b < 0 \<and> ?c b d < 0"
    then have le: "?c a d \<le> 0"
      using tr [OF a b d] by simp
    have "?c a d \<noteq> 0"
    proof
      assume "?c a d = 0"
      then have "?c d a \<le> 0"
        using compareRecommendations_antisym [of fp d a] by simp
      moreover have "?c a b \<le> 0" using h by simp
      ultimately have "?c d b \<le> 0"
        by (rule tr [OF d a b])
      then show False
        using h compareRecommendations_antisym [of fp d b] by simp
    qed
    with le show "?c a d < 0" by simp
  next
    assume h: "0 < ?c a b \<and> 0 < ?c b d"
    then have "?c d b \<le> 0" "?c b a \<le> 0"
      using compareRecommendations_antisym [of fp d b] compareRecommendations_antisym [of fp b a]
      by simp_all
    then have le: "?c d a \<le> 0"
      by (rule tr [OF d b a])
    have "?c d a \<noteq> 0"
    proof
      assume "?c d a = 0"
      then have "?c a d \<le> 0"
        using compareRecommendations_antisym [of fp a d] by simp
      moreover have "?c d b \<le> 0"
        using h compareRecommendations_antisym [of fp d b] by simp
      ultimately have "?c a b \<le> 0"
        by (rule tr [OF a d b])
      then show False
        using h by simp
    qed
    with le show "0 < ?c a d"
      using compareRecommendations_antisym [of fp a d] by simp
  qed
  show ?thesis
    unfolding consistentOn_def using refl sym three by blast
qed

lemma arraySort_on_clustered:
  assumes "clustered xs"
  shows "arraySort engine (compareRecommendations fp) xs = sort_cmp (compareRecommendations fp) xs"
  by (rule arraySort_consistent) (rule consistent_on_clustered [OF assms])

lemma stable_classes:
  assumes "clustered xs" "k \<in> set xs"
  shows "filter (\<lambda>y. compareRecommendations fp k y = 0) (sort_cmp (compareRecommendations fp) xs)
           = filter (\<lambda>y. compareRecommendations fp k y = 0) xs"
proof (rule filter_sort_cmp)
  fix x y
  assume x: "x \<in> set xs" and y: "y \<in> set xs"
    and kx: "compareRecommendations fp k x = 0" and ky: "compareRecommendations fp k y = 0"
  have "compareRecommendations fp x k \<le> 0"
    using kx compareRecommendations_antisym [of fp x k] by simp
  moreover have "compareRecommendations fp k y \<le> 0"
    using ky by simp
  ultimately show "compareRecommendations fp x y \<le> 0"
    using compareRecommendations_trans [OF assms(1) x assms(2) y] by blast
qed

lemma sorted_on_clustered:
  assumes "clustered xs"
  shows "sorted_wrt (\<lambda>p q. compareRecommendations fp p q \<le> 0)
           (sort_cmp (compareRecommendations fp) xs)"
proof (rule sorted_sort_cmp [where S = "set xs"])
  fix p q r
  assume "p \<in> set xs" "q \<in> set xs" "r \<in> set xs"
    "compareRecommendations fp p q \<le> 0" "compareRecommendations fp q r \<le> 0"
  then show "compareRecommendations fp p r \<le> 0"
    by (rule compareRecommendations_trans [OF assms])
next
  fix p q
  show "compareRecommendations fp p q \<le> 0 \<or> compareRecommendations fp q p \<le> 0"
    by (rule compareRecommendations_total)
qed simp

lemma unique_on_clustered:
  assumes cl: "clustered xs" and m: "mset ys = mset xs"
    and srt: "sorted_wrt (\<lambda>p q. compareRecommendations fp p q \<le> 0) ys"
    and st: "\<forall>k \<in> set xs. filter (\<lambda>y. compareRecommendations fp k y = 0) ys
                           = filter (\<lambda>y. compareRecommendations fp k y = 0) xs"
  shows "ys = sort_cmp (compareRecommendations fp) xs"
proof (rule stable_sorted_unique [where S = "set xs" and c = "compareRecommendations fp"])
  fix a b d
  assume "a \<in> set xs" "b \<in> set xs" "d \<in> set xs"
    "compareRecommendations fp a b \<le> 0" "compareRecommendations fp b d \<le> 0"
  then show "compareRecommendations fp a d \<le> 0"
    by (rule compareRecommendations_trans [OF cl])
next
  fix a
  show "compareRecommendations fp a a \<le> 0"
    using compareRecommendations_total [of fp a a] by simp
next
  show "set ys \<subseteq> set xs"
    using m by (metis set_mset_mset subset_refl)
  show "mset ys = mset (sort_cmp (compareRecommendations fp) xs)"
    using m by (simp add: mset_sort_cmp)
  show "sorted_wrt (\<lambda>a b. compareRecommendations fp a b \<le> 0) ys"
    by (rule srt)
  show "sorted_wrt (\<lambda>a b. compareRecommendations fp a b \<le> 0)
      (sort_cmp (compareRecommendations fp) xs)"
    using cl by (rule sorted_on_clustered)
  show "\<forall>k \<in> set xs.
      filter (\<lambda>y. compareRecommendations fp k y \<le> 0 \<and> compareRecommendations fp y k \<le> 0) ys
        = filter (\<lambda>y. compareRecommendations fp k y \<le> 0 \<and> compareRecommendations fp y k \<le> 0)
            (sort_cmp (compareRecommendations fp) xs)"
    unfolding compareRecommendations_tie_iff using st stable_classes [OF cl] by simp
qed

text \<open>
  On a clustered list neither the doubles nor the engine have a say in the result.
\<close>

lemma same_on_clustered:
  assumes cl: "clustered xs"
  shows "arraySort engine' (compareRecommendations fp') xs
           = arraySort engine (compareRecommendations fp) xs"
proof -
  have "sort_cmp (compareRecommendations fp') xs = sort_cmp (compareRecommendations fp) xs"
  proof (rule sort_cmp_cong)
    fix a b
    assume "a \<in> set xs" "b \<in> set xs"
    then show "compareRecommendations fp' a b = compareRecommendations fp a b"
      by (simp only: compareRecommendations_exact [OF cl])
  qed
  then show ?thesis
    by (simp only: arraySort_on_clustered [OF cl])
qed

text \<open>
  Claim C1, as amended. The comparator is a function of its two arguments: the difference
  of the totals when they differ by more than 0.5, the difference of the forms when they
  differ by less (either of the two when they differ by exactly 0.5, as the doubles
  decide), the second player's number minus the first's, so that the greater goes first.
  It satisfies \<open>compare(a, b) = - compare(b, a)\<close>, and sorting returns a permutation of the
  input. On a
  clustered list (no two totals differ by exactly 0.5, where the doubles decide, and
  being within 0.5 is transitive) the comparator is consistent and transitive, the sorted
  list is ordered by it, every class of players that it ties (in particular players equal
  under both keys) keeps its input order, the sorted list is the only arrangement of
  the input with these properties, and it is the same for every engine and for every
  way the doubles fall. (The comparator is not transitive in general: see the
  counterexample.)
\<close>

theorem recommendation_sort_on_clustered:
  "(1 / 2 < \<bar>totalVulnerabilityScore b - totalVulnerabilityScore a\<bar> \<longrightarrow>
      compareRecommendations fp a b = totalVulnerabilityScore b - totalVulnerabilityScore a) \<and>
   (\<bar>totalVulnerabilityScore b - totalVulnerabilityScore a\<bar> < 1 / 2 \<longrightarrow>
      compareRecommendations fp a b = pa_form b - pa_form a) \<and>
   (compareRecommendations fp a b = totalVulnerabilityScore b - totalVulnerabilityScore a \<or>
    compareRecommendations fp a b = pa_form b - pa_form a) \<and>
   compareRecommendations fp a b = - compareRecommendations fp b a \<and>
   mset (arraySort engine (compareRecommendations fp) xs) = mset xs \<and>
   (clustered xs \<longrightarrow>
      consistentOn (compareRecommendations fp) xs \<and>
      (\<forall>p \<in> set xs. \<forall>q \<in> set xs. \<forall>r \<in> set xs.
         compareRecommendations fp p q \<le> 0 \<and> compareRecommendations fp q r \<le> 0
           \<longrightarrow> compareRecommendations fp p r \<le> 0) \<and>
      sorted_wrt (\<lambda>p q. compareRecommendations fp p q \<le> 0)
        (arraySort engine (compareRecommendations fp) xs) \<and>
      (\<forall>k \<in> set xs.
         filter (\<lambda>y. compareRecommendations fp k y = 0)
             (arraySort engine (compareRecommendations fp) xs)
           = filter (\<lambda>y. compareRecommendations fp k y = 0) xs) \<and>
      filter (sameKeys k) (arraySort engine (compareRecommendations fp) xs)
        = filter (sameKeys k) xs \<and>
      (\<forall>ys. mset ys = mset xs \<and>
            sorted_wrt (\<lambda>p q. compareRecommendations fp p q \<le> 0) ys \<and>
            (\<forall>k \<in> set xs. filter (\<lambda>y. compareRecommendations fp k y = 0) ys
                             = filter (\<lambda>y. compareRecommendations fp k y = 0) xs)
            \<longrightarrow> ys = arraySort engine (compareRecommendations fp) xs) \<and>
      (\<forall>fp' engine'. arraySort engine' (compareRecommendations fp') xs
                       = arraySort engine (compareRecommendations fp) xs))"
proof (intro conjI impI ballI allI)
  assume "1 / 2 < \<bar>totalVulnerabilityScore b - totalVulnerabilityScore a\<bar>"
  then show "compareRecommendations fp a b
      = totalVulnerabilityScore b - totalVulnerabilityScore a"
    using compareRecommendations_two_tier by blast
next
  assume "\<bar>totalVulnerabilityScore b - totalVulnerabilityScore a\<bar> < 1 / 2"
  then show "compareRecommendations fp a b = pa_form b - pa_form a"
    using compareRecommendations_two_tier by blast
next
  show "compareRecommendations fp a b = totalVulnerabilityScore b - totalVulnerabilityScore a \<or>
    compareRecommendations fp a b = pa_form b - pa_form a"
    using compareRecommendations_two_tier by blast
next
  show "compareRecommendations fp a b = - compareRecommendations fp b a"
    by (rule compareRecommendations_antisym)
  show "mset (arraySort engine (compareRecommendations fp) xs) = mset xs"
    by (rule mset_arraySort)
next
  assume "clustered xs"
  then show "consistentOn (compareRecommendations fp) xs"
    by (rule consistent_on_clustered)
next
  fix p q r
  assume "clustered xs" "p \<in> set xs" "q \<in> set xs" "r \<in> set xs"
    "compareRecommendations fp p q \<le> 0 \<and> compareRecommendations fp q r \<le> 0"
  then show "compareRecommendations fp p r \<le> 0"
    using compareRecommendations_trans [of xs p q r fp] by blast
next
  assume cl: "clustered xs"
  then show "sorted_wrt (\<lambda>p q. compareRecommendations fp p q \<le> 0)
      (arraySort engine (compareRecommendations fp) xs)"
    unfolding arraySort_on_clustered [OF cl] by (rule sorted_on_clustered)
next
  fix j
  assume cl: "clustered xs" and j: "j \<in> set xs"
  show "filter (\<lambda>y. compareRecommendations fp j y = 0)
          (arraySort engine (compareRecommendations fp) xs)
           = filter (\<lambda>y. compareRecommendations fp j y = 0) xs"
    unfolding arraySort_on_clustered [OF cl] using cl j by (rule stable_classes)
next
  assume cl: "clustered xs"
  show "filter (sameKeys k) (arraySort engine (compareRecommendations fp) xs)
      = filter (sameKeys k) xs"
    unfolding arraySort_on_clustered [OF cl]
  proof (rule filter_sort_cmp)
    fix x y
    assume "sameKeys k x" "sameKeys k y"
    then show "compareRecommendations fp x y \<le> 0"
      by (simp add: compareRecommendations_sameKeys)
  qed
next
  fix ys
  assume cl: "clustered xs"
    and "mset ys = mset xs \<and>
            sorted_wrt (\<lambda>p q. compareRecommendations fp p q \<le> 0) ys \<and>
            (\<forall>k \<in> set xs. filter (\<lambda>y. compareRecommendations fp k y = 0) ys
                             = filter (\<lambda>y. compareRecommendations fp k y = 0) xs)"
  then show "ys = arraySort engine (compareRecommendations fp) xs"
    unfolding arraySort_on_clustered [OF cl]
    using unique_on_clustered [of xs ys fp] by blast
next
  fix fp' engine'
  assume "clustered xs"
  then show "arraySort engine' (compareRecommendations fp') xs
      = arraySort engine (compareRecommendations fp) xs"
    by (rule same_on_clustered)
qed

lemma clustered_sample: "clustered [pickA, pickB, samplePick 4 (4 / 5) 5]"
  by (simp add: clustered_def tied_def pickA_def pickB_def samplePick_def)

theorem recommendation_sort_on_clustered_witness:
  "clustered [pickA, pickB, samplePick 4 (4 / 5) 5] \<and>
   arraySort reversing (compareRecommendations halfUp) [pickA, pickB, samplePick 4 (4 / 5) 5]
     = [samplePick 4 (4 / 5) 5, pickB, pickA] \<and>
   sorted_wrt (\<lambda>p q. compareRecommendations halfUp p q \<le> 0)
     [samplePick 4 (4 / 5) 5, pickB, pickA]"
proof -
  let ?xs = "[pickA, pickB, samplePick 4 (4 / 5) 5]"
  note t = recommendation_sort_on_clustered [where fp = halfUp and a = pickA and b = pickB
      and engine = reversing and xs = ?xs and k = pickA]
  have c: "consistentOn (compareRecommendations halfUp) ?xs"
    using t clustered_sample by blast
  have "sort_cmp (compareRecommendations halfUp) ?xs = [samplePick 4 (4 / 5) 5, pickB, pickA]"
    by (simp add: compareRecommendations_def absExceedsHalf_def pickA_def pickB_def
        samplePick_def)
  then have s: "arraySort reversing (compareRecommendations halfUp) ?xs
      = [samplePick 4 (4 / 5) 5, pickB, pickA]"
    using c by (simp only: arraySort_def if_True)
  have "sorted_wrt (\<lambda>p q. compareRecommendations halfUp p q \<le> 0)
      (arraySort reversing (compareRecommendations halfUp) ?xs)"
    using t clustered_sample by blast
  with s clustered_sample show ?thesis by simp
qed

lemma comparator_cycle_any_doubles:
  "compareRecommendations fp pickA pickC < 0 \<and>
   compareRecommendations fp pickC pickB < 0 \<and>
   compareRecommendations fp pickB pickA < 0"
  by (simp add: compareRecommendations_def absExceedsHalf_def pickA_def pickB_def pickC_def
      samplePick_def)

text \<open>
  The claim as stated fails: the comparator is not transitive, hence no total order.
  With totals 1.00, 0.60, 0.20 and forms 1, 2, 3 the first player goes before the third
  on the total, the third before the second and the second before the first on form.
  No difference is at the tie of the doubles, so this is so however they fall; the order
  in which the three come out is the engine's choice.
\<close>

theorem recommendation_comparator_cycle:
  "compareRecommendations halfUp pickA pickC < 0 \<and>
   compareRecommendations halfUp pickC pickB < 0 \<and>
   compareRecommendations halfUp pickB pickA < 0"
  by (simp add: compareRecommendations_def absExceedsHalf_def pickA_def pickB_def pickC_def
      samplePick_def)
subsection \<open>Objects and the statistics table\<close>

lemma obj_get_put: "obj_get (obj_put k v ob) k' = (if k' = k then Some v else obj_get ob k')"
  by (induction ob) (auto simp: obj_get_def)

lemma statsAt_statsSet:
  "statsAt (statsSet p tbl s) q =
     (if q = p \<and> p \<in> {1, 2, 3, 4} then Some tbl else statsAt s q)"
  by (simp add: statsAt_def statsSet_def)

lemma statsAt_Some_iff: "(\<exists>tbl. statsAt s p = Some tbl) \<longleftrightarrow> p \<in> {1, 2, 3, 4}"
  by (simp add: statsAt_def)

lemma cellAt_statsSet:
  assumes "statsAt s p = Some tbl0"
  shows "cellAt (statsSet p tbl s) q t = (if q = p then obj_get tbl t else cellAt s q t)"
proof -
  have "p \<in> {1, 2, 3, 4}"
    using assms statsAt_Some_iff by blast
  then show ?thesis
    by (simp add: cellAt_def statsAt_statsSet)
qed

subsection \<open>The statistics stay a table of the teams\<close>

lemma set_obj_put: "set (obj_put k v ob) \<subseteq> insert (k, v) (set ob)"
  by (induction ob) (auto split: if_splits)

lemma keys_obj_put: "set (obj_keys (obj_put k v ob)) = insert k (set (obj_keys ob))"
proof (induction ob)
  case Nil
  show ?case by (simp add: obj_keys_def)
next
  case (Cons kv ob)
  obtain k' v' where kv: "kv = (k', v')" by (cases kv)
  from Cons have IH: "fst ` set (obj_put k v ob) = insert k (fst ` set ob)"
    by (simp add: obj_keys_def)
  show ?case
    unfolding kv obj_keys_def using IH by (cases "k < k'"; cases "k = k'") auto
qed

lemma sorted_obj_put:
  assumes "sorted_wrt (<) (obj_keys ob)"
  shows "sorted_wrt (<) (obj_keys (obj_put k v ob))"
  using assms
proof (induction ob)
  case Nil
  show ?case by (simp add: obj_keys_def)
next
  case (Cons kv ob)
  obtain k' v' where kv: "kv = (k', v')" by (cases kv)
  have tl: "sorted_wrt (<) (obj_keys ob)" and hd: "\<forall>x \<in> set (obj_keys ob). k' < x"
    using Cons.prems by (auto simp: kv obj_keys_def)
  have IH: "sorted_wrt (<) (obj_keys (obj_put k v ob))"
    using Cons.IH tl by blast
  consider "k < k'" | "k = k'" | "k' < k" by linarith
  then show ?case
  proof cases
    case 1
    with hd tl show ?thesis
      by (auto simp: kv obj_keys_def)
  next
    case 2
    with hd tl show ?thesis
      by (auto simp: kv obj_keys_def)
  next
    case 3
    have "\<forall>x \<in> set (obj_keys (obj_put k v ob)). k' < x"
      using hd 3 by (simp add: keys_obj_put)
    with 3 IH show ?thesis
      by (simp add: kv obj_keys_def)
  qed
qed

lemma obj_get_Some_iff:
  assumes "sorted_wrt (<) (obj_keys ob)"
  shows "obj_get ob k = Some v \<longleftrightarrow> (k, v) \<in> set ob"
proof -
  have "distinct (map fst ob)"
    using assms strict_sorted_iff [of "map fst ob"] by (simp add: obj_keys_def)
  then show ?thesis
    by (simp add: obj_get_def)
qed

lemma wfTable_put:
  assumes "wfTable teams tbl" "t \<in> set teams" "team_id t = k" "team_name t = cell_name c"
  shows "wfTable teams (obj_put k c tbl)"
proof -
  have "\<exists>t \<in> set teams. team_id t = k' \<and> team_name t = cell_name c'"
    if "(k', c') \<in> set (obj_put k c tbl)" for k' c'
  proof (cases "(k', c') = (k, c)")
    case True
    with assms(2-4) show ?thesis by auto
  next
    case False
    with that set_obj_put [of k c tbl] have "(k', c') \<in> set tbl" by auto
    with assms(1) show ?thesis by (auto simp: wfTable_def)
  qed
  moreover have "sorted_wrt (<) (obj_keys (obj_put k c tbl))"
    using assms(1) by (simp add: wfTable_def sorted_obj_put)
  ultimately show ?thesis
    unfolding wfTable_def by blast
qed

lemma wfStats_initTeam:
  assumes "wfStats teams s" "t \<in> set teams"
  shows "wfStats teams (initTeam t s)"
  using assms by (simp add: wfStats_def initTeam_def wfTable_put zeroCell_def)

lemma wfStats_fold_initTeam:
  assumes "wfStats teams s" "set ts \<subseteq> set teams"
  shows "wfStats teams (fold initTeam ts s)"
  using assms by (induction ts arbitrary: s) (simp_all add: wfStats_initTeam)

lemma wfStats_initialize: "wfStats teams (initialize teams)"
proof -
  have "wfStats teams newTeamDefenseStats"
    by (simp add: wfStats_def wfTable_def newTeamDefenseStats_def obj_keys_def)
  then show ?thesis
    unfolding initialize_def by (rule wfStats_fold_initTeam) simp
qed

lemma wfStats_statsAt:
  assumes "wfStats teams s" "statsAt s p = Some tbl"
  shows "wfTable teams tbl"
  using assms by (auto simp: wfStats_def statsAt_def split: if_splits)

lemma wfStats_statsSet:
  assumes "wfStats teams s" "wfTable teams tbl"
  shows "wfStats teams (statsSet p tbl s)"
  using assms by (simp add: wfStats_def statsSet_def)

lemma wfStats_processGameweek:
  assumes "wfStats teams s" "processGameweek pos s g = Inr s'"
  shows "wfStats teams s'"
proof (cases "s' = s")
  case True
  with assms(1) show ?thesis by simp
next
  case False
  then obtain tbl c where tbl: "statsAt s pos = Some tbl"
    and c: "obj_get tbl (opponent_team g) = Some c"
    and s': "s' = statsSet pos (obj_put (opponent_team g)
               (c\<lparr>pointsAllowed := pointsAllowed c + gw_total_points g, games := games c + 1\<rparr>)
               tbl) s"
    using assms(2)
    by (auto simp: processGameweek_def Let_def split: if_splits option.splits)
  have wt: "wfTable teams tbl"
    using assms(1) tbl by (rule wfStats_statsAt)
  then have "(opponent_team g, c) \<in> set tbl"
    using c by (simp add: wfTable_def obj_get_Some_iff)
  then obtain t where "t \<in> set teams" "team_id t = opponent_team g" "team_name t = cell_name c"
    using wt by (auto simp: wfTable_def)
  then have "wfTable teams (obj_put (opponent_team g)
               (c\<lparr>pointsAllowed := pointsAllowed c + gw_total_points g, games := games c + 1\<rparr>)
               tbl)"
    using wt by (intro wfTable_put [where t = t]) simp_all
  with assms(1) show ?thesis
    unfolding s' by (rule wfStats_statsSet)
qed

lemma wfStats_forEach:
  assumes "wfStats teams s"
  shows "wfStats teams (fst (forEach (processGameweek pos) h s))"
  using assms
proof (induction h arbitrary: s)
  case Nil
  then show ?case by simp
next
  case (Cons g h)
  show ?case
  proof (cases "processGameweek pos s g")
    case (Inl e)
    with Cons.prems show ?thesis by simp
  next
    case (Inr s1)
    with Cons.prems have "wfStats teams s1"
      using wfStats_processGameweek by blast
    with Inr Cons.IH show ?thesis by simp
  qed
qed

lemma wfStats_processPlayerData:
  assumes "wfStats teams s"
  shows "wfStats teams (fst (processPlayerData players src s playerId))"
  using assms wfStats_forEach [OF assms]
  by (auto simp: processPlayerData_def split: option.splits sum.splits)

lemma wfStats_fold_process:
  assumes "wfStats teams s"
  shows "wfStats teams (fold (\<lambda>playerId s. fst (processPlayerData players src s playerId)) ids s)"
  using assms by (induction ids arbitrary: s) (simp_all add: wfStats_processPlayerData)

lemma wfStats_processAll: "wfStats teams (processAll players src (initialize teams))"
  unfolding processAll_def by (rule wfStats_fold_process) (rule wfStats_initialize)

subsection \<open>Defense aggregation\<close>

lemma credit_Nil: "credit [] c = c"
  by (simp add: credit_def)

lemma credit_Cons: "credit gs (credit [g] c) = credit (g # gs) c"
  by (simp add: credit_def)

text \<open>One record: it is credited to the cell of the position and the opponent, or nothing changes.\<close>

lemma processGameweek_cells:
  assumes "pos \<in> {1, 2, 3, 4}"
  shows "\<exists>s'. processGameweek pos s g = Inr s' \<and>
           (\<forall>q t. cellAt s' q t =
              (if counts s pos g \<and> q = pos \<and> t = opponent_team g
               then map_option (credit [g]) (cellAt s q t) else cellAt s q t))"
proof -
  obtain tbl where tbl: "statsAt s pos = Some tbl"
    using assms statsAt_Some_iff by blast
  show ?thesis
  proof (cases "counts s pos g")
    case False
    then have "processGameweek pos s g = Inr s"
      using tbl by (auto simp: processGameweek_def counts_def cellAt_def Let_def split: option.splits)
    with False show ?thesis by simp
  next
    case True
    then obtain c where c: "obj_get tbl (opponent_team g) = Some c"
      using tbl by (auto simp: counts_def cellAt_def)
    let ?c' = "c\<lparr>pointsAllowed := pointsAllowed c + gw_total_points g, games := games c + 1\<rparr>"
    let ?s' = "statsSet pos (obj_put (opponent_team g) ?c' tbl) s"
    have step: "processGameweek pos s g = Inr ?s'"
      using True tbl c by (simp add: processGameweek_def counts_def Let_def)
    have "?c' = credit [g] c"
      by (simp add: credit_def)
    then have "cellAt ?s' q t =
        (if q = pos \<and> t = opponent_team g then map_option (credit [g]) (cellAt s q t)
         else cellAt s q t)" for q t
      using tbl c by (simp add: cellAt_statsSet [OF tbl] obj_get_put) (simp add: cellAt_def)
    with step True show ?thesis by simp
  qed
qed

lemma processGameweek_counts:
  assumes "pos \<in> {1, 2, 3, 4}" "processGameweek pos s g = Inr s'"
  shows "counts s' pos g' = counts s pos g'"
proof -
  have "cellAt s' q t = None \<longleftrightarrow> cellAt s q t = None" for q t
    using processGameweek_cells [OF assms(1), of s g] assms(2) by auto
  then show ?thesis
    by (simp add: counts_def)
qed

lemma forEach_processGameweek:
  assumes "pos \<in> {1, 2, 3, 4}"
  shows "\<exists>s'. forEach (processGameweek pos) h s = (s', None) \<and>
           (\<forall>q t. cellAt s' q t = map_option (credit (countedFor s pos h q t)) (cellAt s q t))"
proof (induction h arbitrary: s)
  case Nil
  show ?case
    by (simp add: countedFor_def credit_Nil option.map_ident cong: option.map_cong)
next
  case (Cons g h)
  obtain s1 where s1: "processGameweek pos s g = Inr s1"
    and c1: "\<And>q t. cellAt s1 q t =
              (if counts s pos g \<and> q = pos \<and> t = opponent_team g
               then map_option (credit [g]) (cellAt s q t) else cellAt s q t)"
    using processGameweek_cells [OF assms, of s g] by blast
  obtain s' where s': "forEach (processGameweek pos) h s1 = (s', None)"
    and c': "\<And>q t. cellAt s' q t = map_option (credit (countedFor s1 pos h q t)) (cellAt s1 q t)"
    using Cons.IH [of s1] by blast
  have same: "countedFor s1 pos h q t = countedFor s pos h q t" for q t
    by (simp add: countedFor_def processGameweek_counts [OF assms s1])
  have "cellAt s' q t = map_option (credit (countedFor s pos (g # h) q t)) (cellAt s q t)" for q t
  proof (cases "counts s pos g \<and> q = pos \<and> t = opponent_team g")
    case True
    then have "countedFor s pos (g # h) q t = g # countedFor s pos h q t"
      by (simp add: countedFor_def)
    then show ?thesis
      using True c' [of q t] c1 [of q t] same [of q t]
      by (simp add: option.map_comp comp_def credit_Cons cong: option.map_cong)
  next
    case False
    then have "countedFor s pos (g # h) q t = countedFor s pos h q t"
      by (auto simp: countedFor_def)
    then show ?thesis
      using False c' [of q t] c1 [of q t] same [of q t] by auto
  qed
  with s1 s' show ?case by simp
qed

lemma processPlayerData_found:
  assumes "find (\<lambda>p. player_id p = playerId) players = Some playerInfo"
    and "element_type playerInfo \<in> {1, 2, 3, 4}"
    and "getPlayerData playerId = Inr fetched"
  shows "\<exists>s'. processPlayerData players getPlayerData s playerId = (s', None) \<and>
           (\<forall>q t. cellAt s' q t =
              map_option
                (credit (countedFor s (element_type playerInfo)
                           (case fetched of None \<Rightarrow> [] | Some h \<Rightarrow> h) q t))
                (cellAt s q t)) \<and>
           ((fetched = None \<or> fetched = Some []) \<longrightarrow> s' = s)"
proof (cases fetched)
  case None
  then show ?thesis
    using assms
    by (simp add: processPlayerData_def countedFor_def credit_Nil option.map_ident
        cong: option.map_cong)
next
  case (Some h)
  show ?thesis
  proof (cases "h = []")
    case True
    with Some show ?thesis
      using assms
      by (simp add: processPlayerData_def countedFor_def credit_Nil option.map_ident
          cong: option.map_cong)
  next
    case False
    with Some show ?thesis
      using assms forEach_processGameweek [OF assms(2), of h s]
      by (simp add: processPlayerData_def)
  qed
qed

text \<open>
  Claim C4, as amended. When a player of position 1 to 4 is processed, every cell ends up
  credited with exactly the records of the history that have minutes > 0, a non-zero
  opponent team id, an existing cell for (the player's position, that opponent), and that
  are for this very cell: their points are added and the games go up by their number.
  All other cells are as before, no error is raised, and an empty or missing history
  leaves the statistics as they were. An id that is not in the bootstrap changes
  nothing, and neither does a failed fetch, which is the only error.
\<close>

theorem processPlayerData_credits:
  "(find (\<lambda>p. player_id p = playerId) players = None \<longrightarrow>
      processPlayerData players getPlayerData s playerId = (s, None)) \<and>
   (find (\<lambda>p. player_id p = playerId) players = Some playerInfo \<and>
    getPlayerData playerId = Inl err \<longrightarrow>
      processPlayerData players getPlayerData s playerId = (s, Some err)) \<and>
   (find (\<lambda>p. player_id p = playerId) players = Some playerInfo \<and>
    element_type playerInfo \<in> {1, 2, 3, 4} \<and>
    getPlayerData playerId = Inr fetched \<longrightarrow>
      (\<exists>s'. processPlayerData players getPlayerData s playerId = (s', None) \<and>
         (\<forall>q t. cellAt s' q t =
            map_option
              (credit (countedFor s (element_type playerInfo)
                         (case fetched of None \<Rightarrow> [] | Some h \<Rightarrow> h) q t))
              (cellAt s q t)) \<and>
         ((fetched = None \<or> fetched = Some []) \<longrightarrow> s' = s)))"
proof (intro conjI impI)
  assume "find (\<lambda>p. player_id p = playerId) players = None"
  then show "processPlayerData players getPlayerData s playerId = (s, None)"
    by (simp add: processPlayerData_def)
next
  assume "find (\<lambda>p. player_id p = playerId) players = Some playerInfo \<and>
    getPlayerData playerId = Inl err"
  then show "processPlayerData players getPlayerData s playerId = (s, Some err)"
    by (simp add: processPlayerData_def)
next
  assume "find (\<lambda>p. player_id p = playerId) players = Some playerInfo \<and>
    element_type playerInfo \<in> {1, 2, 3, 4} \<and>
    getPlayerData playerId = Inr fetched"
  then show "\<exists>s'. processPlayerData players getPlayerData s playerId = (s', None) \<and>
         (\<forall>q t. cellAt s' q t =
            map_option
              (credit (countedFor s (element_type playerInfo)
                         (case fetched of None \<Rightarrow> [] | Some h \<Rightarrow> h) q t))
              (cellAt s q t)) \<and>
         ((fetched = None \<or> fetched = Some []) \<longrightarrow> s' = s)"
    using processPlayerData_found [of playerId players playerInfo getPlayerData fetched s]
    by blast
qed

lemma initialize_teamX:
  "initialize [teamX] =
     \<lparr>stats1 = [(3, zeroCell teamX)], stats2 = [(3, zeroCell teamX)],
      stats3 = [(3, zeroCell teamX)], stats4 = [(3, zeroCell teamX)]\<rparr>"
  by (simp add: initialize_def initTeam_def newTeamDefenseStats_def teamX_def)

theorem processPlayerData_credits_witness:
  "find (\<lambda>p. player_id p = 9) [forward9] = Some forward9 \<and>
   element_type forward9 \<in> {1, 2, 3, 4} \<and>
   (\<exists>s'. processPlayerData [forward9] (sameHistory [record8 3, record8 5]) (initialize [teamX]) 9
           = (s', None) \<and>
         cellAt s' 4 3 = Some \<lparr>cell_name = ''Team X'', pointsAllowed = 8, games = 1\<rparr> \<and>
         cellAt s' 3 3 = Some \<lparr>cell_name = ''Team X'', pointsAllowed = 0, games = 0\<rparr> \<and>
         cellAt s' 4 5 = None) \<and>
   find (\<lambda>p. player_id p = 77) [forward9] = None \<and>
   processPlayerData [forward9] sampleSource (initialize [teamX]) 77 = (initialize [teamX], None) \<and>
   find (\<lambda>p. player_id p = 7) [starter_900] = Some starter_900 \<and>
   sampleSource 7 = Inl FetchError \<and>
   processPlayerData [starter_900] sampleSource (initialize [teamX]) 7
     = (initialize [teamX], Some FetchError)"
proof -
  have n: "find (\<lambda>p. player_id p = 77) [forward9] = None"
    by (simp add: forward9_def)
  then have unknown:
    "processPlayerData [forward9] sampleSource (initialize [teamX]) 77 = (initialize [teamX], None)"
    using processPlayerData_credits [where playerId = 77 and players = "[forward9]"
        and getPlayerData = sampleSource and s = "initialize [teamX]"]
    by blast
  have f7: "find (\<lambda>p. player_id p = 7) [starter_900] = Some starter_900"
    by (simp add: starter_900_def)
  have s7: "sampleSource 7 = Inl FetchError"
    by (simp add: sampleSource_def)
  have failed: "processPlayerData [starter_900] sampleSource (initialize [teamX]) 7
      = (initialize [teamX], Some FetchError)"
    using processPlayerData_credits [where playerId = 7 and players = "[starter_900]"
        and playerInfo = starter_900 and getPlayerData = sampleSource and err = FetchError
        and s = "initialize [teamX]"] f7 s7
    by blast
  have f: "find (\<lambda>p. player_id p = 9) [forward9] = Some forward9"
    by (simp add: forward9_def)
  have e: "element_type forward9 \<in> {1, 2, 3, 4}"
    by (simp add: forward9_def)
  have et: "element_type forward9 = 4"
    by (simp add: forward9_def)
  have c43: "cellAt (initialize [teamX]) 4 3 = Some (zeroCell teamX)"
    and c33: "cellAt (initialize [teamX]) 3 3 = Some (zeroCell teamX)"
    and c45: "cellAt (initialize [teamX]) 4 5 = None"
    by (simp_all add: initialize_teamX cellAt_def statsAt_def obj_get_def)
  have cnt: "counts (initialize [teamX]) 4 (record8 3)" "\<not> counts (initialize [teamX]) 4 (record8 5)"
    by (simp_all add: counts_def c43 c45 record8_def)
  obtain s' where
    run: "processPlayerData [forward9] (sameHistory [record8 3, record8 5]) (initialize [teamX]) 9
            = (s', None)"
    and cells: "\<And>q t. cellAt s' q t =
              map_option
                (credit (countedFor (initialize [teamX]) (element_type forward9)
                           (case Some [record8 3, record8 5] of None \<Rightarrow> [] | Some h \<Rightarrow> h) q t))
                (cellAt (initialize [teamX]) q t)"
    using processPlayerData_credits [where playerId = 9 and players = "[forward9]"
        and playerInfo = forward9 and getPlayerData = "sameHistory [record8 3, record8 5]"
        and fetched = "Some [record8 3, record8 5]" and s = "initialize [teamX]"] f e
    by (auto simp: sameHistory_def)
  have opp: "opponent_team (record8 k) = k" for k
    by (simp add: record8_def)
  have cf43: "countedFor (initialize [teamX]) 4 [record8 3, record8 5] 4 3 = [record8 3]"
    and cf33: "countedFor (initialize [teamX]) 4 [record8 3, record8 5] 3 3 = []"
    using cnt by (simp_all add: countedFor_def opp)
  have "cellAt s' 4 3 = Some (credit [record8 3] (zeroCell teamX))"
    using cells [of 4 3] by (simp add: et c43 cf43)
  then have "cellAt s' 4 3 = Some \<lparr>cell_name = ''Team X'', pointsAllowed = 8, games = 1\<rparr>"
    by (simp add: credit_def zeroCell_def teamX_def record8_def)
  moreover have "cellAt s' 3 3 = Some (credit [] (zeroCell teamX))"
    using cells [of 3 3] by (simp add: et c33 cf33)
  then have "cellAt s' 3 3 = Some \<lparr>cell_name = ''Team X'', pointsAllowed = 0, games = 0\<rparr>"
    by (simp add: credit_def zeroCell_def teamX_def)
  moreover have "cellAt s' 4 5 = None"
    using cells [of 4 5] by (simp add: c45)
  ultimately show ?thesis
    using f e run n unknown f7 s7 failed by blast
qed

text \<open>
  The claim as stated fails for a team whose id is 0: its cells exist, but the opponent
  id is first tested as a truth value, so a record against it is never counted.
\<close>

theorem team_zero_never_counted:
  "cellAt (initialize [teamZero]) 4 0 = Some (zeroCell teamZero) \<and>
   0 < gw_minutes (record8 0) \<and>
   processPlayerData [forward9] (sameHistory [record8 0]) (initialize [teamZero]) 9
     = (initialize [teamZero], None)"
  by (simp add: initialize_def initTeam_def newTeamDefenseStats_def teamZero_def cellAt_def
      statsAt_def obj_get_def record8_def processPlayerData_def forward9_def
      processGameweek_def sameHistory_def)

subsection \<open>The ranked table\<close>

lemma entryOfCell_defenseEntry: "entryOfCell (defenseEntry fp c) c"
  by (simp add: entryOfCell_def defenseEntry_def rendersTwoDecimals_toFixed)

lemma sortedTeams_mset:
  "mset (sortedTeams fp tbl) =
     image_mset (defenseEntry fp) (filter_mset (\<lambda>c. 0 < games c) (mset (obj_values tbl)))"
  by (simp add: sortedTeams_def mset_sort_cmp)

lemma sortedTeams_rel:
  "rel_mset entryOfCell (mset (sortedTeams fp tbl))
     (filter_mset (\<lambda>c. 0 < games c) (mset (obj_values tbl)))"
  unfolding sortedTeams_mset multiset.rel_map
  by (rule multiset.rel_refl_strong) (rule entryOfCell_defenseEntry)

lemma sortedTeams_entries:
  assumes "e \<in> set (sortedTeams fp tbl)"
  shows "0 < gamesPlayed e \<and> (\<exists>c \<in> set (obj_values tbl). 0 < games c \<and> entryOfCell e c)"
proof -
  obtain c where c: "c \<in> set (obj_values tbl)" "0 < games c" "e = defenseEntry fp c"
    using assms by (auto simp: sortedTeams_def set_sort_cmp)
  have "entryOfCell e c"
    unfolding c(3) by (rule entryOfCell_defenseEntry)
  moreover have "0 < gamesPlayed e"
    using c by (simp add: defenseEntry_def)
  ultimately show ?thesis using c by blast
qed

lemma sortedTeams_cells:
  assumes "c \<in> set (obj_values tbl)" "0 < games c"
  shows "\<exists>e \<in> set (sortedTeams fp tbl). entryOfCell e c"
proof -
  have "defenseEntry fp c \<in> set (sortedTeams fp tbl)"
    using assms by (auto simp: sortedTeams_def set_sort_cmp)
  then show ?thesis
    using entryOfCell_defenseEntry by blast
qed

lemma sortedTeams_sorted:
  "sorted_wrt (\<lambda>a b. totalPointsAllowed b \<le> totalPointsAllowed a) (sortedTeams fp tbl)"
proof -
  let ?c = "\<lambda>a b. totalPointsAllowed b - totalPointsAllowed a"
  let ?xs = "map (defenseEntry fp) (filter (\<lambda>c. 0 < games c) (obj_values tbl))"
  have "sorted_wrt (\<lambda>a b. ?c a b \<le> 0) (sort_cmp ?c ?xs)"
  proof (rule sorted_sort_cmp [where S = UNIV])
    fix a b d :: DefenseEntry
    assume "?c a b \<le> 0" "?c b d \<le> 0"
    then show "?c a d \<le> 0" by linarith
  next
    fix a b :: DefenseEntry
    show "?c a b \<le> 0 \<or> ?c b a \<le> 0" by linarith
  qed simp
  then show ?thesis by (simp add: sortedTeams_def)
qed

lemma field_calculateResults:
  assumes "statsAt s p = Some tbl" "positionMap p = Some field"
  shows "field (calculateResults fp s) = sortedTeams fp tbl"
  using assms
  by (auto simp: statsAt_def positionMap_def calculateResults_def split: if_splits)

lemma one_forward_run:
  "processAll [forward9] (sameHistory [record8 3]) (initialize [teamX])
      = \<lparr>stats1 = [(3, zeroCell teamX)], stats2 = [(3, zeroCell teamX)],
         stats3 = [(3, zeroCell teamX)],
         stats4 = [(3, \<lparr>cell_name = ''Team X'', pointsAllowed = 8, games = 1\<rparr>)]\<rparr>"
  by (simp add: processAll_def processPlayerData_def forward9_def initialize_def
      initTeam_def newTeamDefenseStats_def processGameweek_def record8_def statsAt_def
      statsSet_def obj_get_def zeroCell_def teamX_def sameHistory_def)

text \<open>
  Claim C5. For each position the ranked list corresponds one to one to the cells of that
  position with games > 0: each entry carries the name, the points and the games of its
  cell and the average points / games rendered to two decimals (a multiple of 0.01 within
  0.005 of the quotient, whichever way a tie of the rendering falls); a cell without
  games has no entry; the list is in descending order of total points allowed. One
  forward with the single record (90 minutes, Team X, 8 points) gives the cell (8 points,
  1 game) and the one ranked entry with average 8.00.
\<close>

theorem calculateResults_ranked:
  assumes "statsAt s p = Some tbl" and "positionMap p = Some field"
  shows "rel_mset entryOfCell (mset (field (calculateResults fp s)))
           (filter_mset (\<lambda>c. 0 < games c) (mset (obj_values tbl))) \<and>
         (\<forall>e \<in> set (field (calculateResults fp s)).
            0 < gamesPlayed e \<and>
            (\<exists>c \<in> set (obj_values tbl). 0 < games c \<and>
               name e = cell_name c \<and> totalPointsAllowed e = pointsAllowed c \<and>
               gamesPlayed e = games c \<and>
               (\<exists>n::int. avgPointsAllowedPerGame e = of_int n / 100) \<and>
               \<bar>avgPointsAllowedPerGame e - of_int (pointsAllowed c) / of_nat (games c)\<bar>
                 \<le> 1 / 200)) \<and>
         (\<forall>c \<in> set (obj_values tbl).
            0 < games c \<longrightarrow> (\<exists>e \<in> set (field (calculateResults fp s)). entryOfCell e c)) \<and>
         sorted_wrt (\<lambda>a b. totalPointsAllowed b \<le> totalPointsAllowed a)
           (field (calculateResults fp s)) \<and>
         cellAt (processAll [forward9] (sameHistory [record8 3]) (initialize [teamX])) 4 3
           = Some \<lparr>cell_name = ''Team X'', pointsAllowed = 8, games = 1\<rparr> \<and>
         analyzeTeamDefense fp [teamX] [forward9] (sameHistory [record8 3])
           = \<lparr>goalkeepers = [], defenders = [], midfielders = [],
              forwards = [\<lparr>name = ''Team X'', totalPointsAllowed = 8, gamesPlayed = 1,
                           avgPointsAllowedPerGame = 8\<rparr>]\<rparr>"
proof -
  have f: "field (calculateResults fp s) = sortedTeams fp tbl"
    using assms by (rule field_calculateResults)
  have cell: "cellAt (processAll [forward9] (sameHistory [record8 3]) (initialize [teamX])) 4 3
      = Some \<lparr>cell_name = ''Team X'', pointsAllowed = 8, games = 1\<rparr>"
    by (simp add: one_forward_run cellAt_def statsAt_def obj_get_def)
  have "toFixed fp 2 8 = 8"
    using toFixed_of_grid [of fp 2 800] by simp
  then have res: "analyzeTeamDefense fp [teamX] [forward9] (sameHistory [record8 3])
      = \<lparr>goalkeepers = [], defenders = [], midfielders = [],
         forwards = [\<lparr>name = ''Team X'', totalPointsAllowed = 8, gamesPlayed = 1,
                      avgPointsAllowedPerGame = 8\<rparr>]\<rparr>"
    by (simp add: analyzeTeamDefense_def one_forward_run calculateResults_def sortedTeams_def
        obj_values_def zeroCell_def defenseEntry_def)
  have ent: "\<forall>e \<in> set (sortedTeams fp tbl).
            0 < gamesPlayed e \<and>
            (\<exists>c \<in> set (obj_values tbl). 0 < games c \<and>
               name e = cell_name c \<and> totalPointsAllowed e = pointsAllowed c \<and>
               gamesPlayed e = games c \<and>
               (\<exists>n::int. avgPointsAllowedPerGame e = of_int n / 100) \<and>
               \<bar>avgPointsAllowedPerGame e - of_int (pointsAllowed c) / of_nat (games c)\<bar>
                 \<le> 1 / 200)"
  proof
    fix e
    assume "e \<in> set (sortedTeams fp tbl)"
    then obtain c where c: "c \<in> set (obj_values tbl)" "0 < games c" "e = defenseEntry fp c"
      by (auto simp: sortedTeams_def set_sort_cmp)
    have avg: "avgPointsAllowedPerGame e = toFixed fp 2 (of_int (pointsAllowed c) / of_nat (games c))"
      using c(3) by (simp add: defenseEntry_def)
    have "(\<exists>n::int. avgPointsAllowedPerGame e = of_int n / 100)"
      unfolding avg by (rule toFixed_2_grid)
    moreover have "\<bar>avgPointsAllowedPerGame e - of_int (pointsAllowed c) / of_nat (games c)\<bar>
        \<le> 1 / 200"
      unfolding avg by (rule toFixed_2_close)
    moreover have "name e = cell_name c" "totalPointsAllowed e = pointsAllowed c"
      "gamesPlayed e = games c"
      using c(3) by (simp_all add: defenseEntry_def)
    ultimately show "0 < gamesPlayed e \<and>
            (\<exists>c \<in> set (obj_values tbl). 0 < games c \<and>
               name e = cell_name c \<and> totalPointsAllowed e = pointsAllowed c \<and>
               gamesPlayed e = games c \<and>
               (\<exists>n::int. avgPointsAllowedPerGame e = of_int n / 100) \<and>
               \<bar>avgPointsAllowedPerGame e - of_int (pointsAllowed c) / of_nat (games c)\<bar>
                 \<le> 1 / 200)"
      using c(1,2) by auto
  qed
  have cells: "\<forall>c \<in> set (obj_values tbl).
      0 < games c \<longrightarrow> (\<exists>e \<in> set (sortedTeams fp tbl). entryOfCell e c)"
    using sortedTeams_cells by blast
  show ?thesis
    unfolding f using sortedTeams_rel [of fp tbl] ent cells sortedTeams_sorted [of fp tbl] cell res
    by blast
qed

theorem calculateResults_ranked_witness:
  "statsAt (processAll [forward9] (sameHistory [record8 3]) (initialize [teamX])) 4
     = Some [(3, \<lparr>cell_name = ''Team X'', pointsAllowed = 8, games = 1\<rparr>)] \<and>
   positionMap 4 = Some forwards \<and>
   rel_mset entryOfCell
     (mset (forwards (calculateResults halfUp
        (processAll [forward9] (sameHistory [record8 3]) (initialize [teamX])))))
     {#\<lparr>cell_name = ''Team X'', pointsAllowed = 8, games = 1\<rparr>#} \<and>
   forwards (calculateResults halfUp
       (processAll [forward9] (sameHistory [record8 3]) (initialize [teamX])))
     = [\<lparr>name = ''Team X'', totalPointsAllowed = 8, gamesPlayed = 1,
         avgPointsAllowedPerGame = 8\<rparr>]"
proof -
  let ?s = "processAll [forward9] (sameHistory [record8 3]) (initialize [teamX])"
  let ?tbl = "[(3, \<lparr>cell_name = ''Team X'', pointsAllowed = 8, games = 1\<rparr>)]"
  have a: "statsAt ?s 4 = Some ?tbl"
    by (simp add: one_forward_run statsAt_def)
  have b: "positionMap 4 = Some forwards"
    by (simp add: positionMap_def)
  have m: "filter_mset (\<lambda>c. 0 < games c) (mset (obj_values ?tbl))
      = {#\<lparr>cell_name = ''Team X'', pointsAllowed = 8, games = 1\<rparr>#}"
    by (simp add: obj_values_def)
  note t = calculateResults_ranked [OF a b, of halfUp]
  have r: "rel_mset entryOfCell (mset (forwards (calculateResults halfUp ?s)))
      {#\<lparr>cell_name = ''Team X'', pointsAllowed = 8, games = 1\<rparr>#}"
    using t unfolding m by blast
  have "analyzeTeamDefense halfUp [teamX] [forward9] (sameHistory [record8 3])
           = \<lparr>goalkeepers = [], defenders = [], midfielders = [],
              forwards = [\<lparr>name = ''Team X'', totalPointsAllowed = 8, gamesPlayed = 1,
                           avgPointsAllowedPerGame = 8\<rparr>]\<rparr>"
    using t by blast
  then have "forwards (calculateResults halfUp ?s)
     = [\<lparr>name = ''Team X'', totalPointsAllowed = 8, gamesPlayed = 1,
         avgPointsAllowedPerGame = 8\<rparr>]"
    by (simp add: analyzeTeamDefense_def)
  with a b r show ?thesis by blast
qed
subsection \<open>The vulnerability scorer\<close>

lemma find_unique:
  assumes "x \<in> set ys" "P x" "\<forall>y \<in> set ys. P y \<longrightarrow> y = x"
  shows "find P ys = Some x"
  using assms(1,3)
proof (induction ys)
  case Nil
  then show ?case by simp
next
  case (Cons y ys)
  show ?case
  proof (cases "P y")
    case True
    then have "y = x" using Cons.prems(2) by simp
    with True show ?thesis by simp
  next
    case False
    then have "y \<noteq> x" using assms(2) by blast
    then have "x \<in> set ys" using Cons.prems(1) by simp
    moreover have "\<forall>z \<in> set ys. P z \<longrightarrow> z = x" using Cons.prems(2) by simp
    ultimately have "find P ys = Some x" by (rule Cons.IH)
    with False show ?thesis by simp
  qed
qed

lemma find_by_name:
  assumes "distinct (map team_name teams)" "t \<in> set teams"
  shows "find (\<lambda>u. team_name u = team_name t) teams = Some t"
proof (rule find_unique)
  show "t \<in> set teams" by (rule assms(2))
  show "team_name t = team_name t" by simp
  have "inj_on team_name (set teams)"
    using assms(1) by (simp add: distinct_map)
  then show "\<forall>u \<in> set teams. team_name u = team_name t \<longrightarrow> u = t"
    using assms(2) by (blast dest: inj_onD)
qed

lemma isTeam_defenseEntry:
  assumes "wfTable teams tbl" "distinct (map team_name teams)" "(k, c) \<in> set tbl"
  shows "isTeam teams teamId (defenseEntry fp c) \<longleftrightarrow> k = teamId"
proof -
  obtain t where t: "t \<in> set teams" "team_id t = k" "team_name t = cell_name c"
    using assms(1,3) by (auto simp: wfTable_def)
  have "find (\<lambda>u. team_name u = cell_name c) teams = Some t"
    using find_by_name [OF assms(2) t(1)] t(3) by simp
  then show ?thesis
    using t(2) by (simp add: isTeam_def defenseEntry_def)
qed

lemma set_sortedTeams:
  "set (sortedTeams fp tbl) = defenseEntry fp ` {c \<in> snd ` set tbl. 0 < games c}"
  by (simp add: sortedTeams_def set_sort_cmp obj_values_def)

lemma mem_sortedTeams: "e \<in> set (sortedTeams fp tbl) \<longleftrightarrow>
               (\<exists>k c. (k, c) \<in> set tbl \<and> 0 < games c \<and> e = defenseEntry fp c)"
  unfolding set_sortedTeams by force

lemma find_sortedTeams_Some:
  assumes wf: "wfTable teams tbl" and dn: "distinct (map team_name teams)"
    and c: "obj_get tbl teamId = Some c" "0 < games c"
  shows "find (isTeam teams teamId) (sortedTeams fp tbl) = Some (defenseEntry fp c)"
proof (rule find_unique)
  have srt: "sorted_wrt (<) (obj_keys tbl)"
    using wf by (simp add: wfTable_def)
  have in_tbl: "(teamId, c) \<in> set tbl"
    using srt c(1) by (simp add: obj_get_Some_iff)
  show "defenseEntry fp c \<in> set (sortedTeams fp tbl)"
    unfolding mem_sortedTeams using in_tbl c(2) by blast
  show "isTeam teams teamId (defenseEntry fp c)"
    using isTeam_defenseEntry [OF wf dn in_tbl] by simp
  show "\<forall>e \<in> set (sortedTeams fp tbl). isTeam teams teamId e \<longrightarrow> e = defenseEntry fp c"
  proof (intro ballI impI)
    fix e
    assume "e \<in> set (sortedTeams fp tbl)" and isT: "isTeam teams teamId e"
    then obtain k c' where kc: "(k, c') \<in> set tbl" and e: "e = defenseEntry fp c'"
      unfolding mem_sortedTeams by blast
    have "k = teamId"
      using isTeam_defenseEntry [OF wf dn kc, of teamId] isT e by simp
    with kc have "obj_get tbl teamId = Some c'"
      using srt by (simp add: obj_get_Some_iff)
    with c(1) have "c' = c" by simp
    with e show "e = defenseEntry fp c" by simp
  qed
qed

lemma find_sortedTeams_None:
  assumes wf: "wfTable teams tbl" and dn: "distinct (map team_name teams)"
    and no: "\<forall>c. obj_get tbl teamId = Some c \<longrightarrow> games c = 0"
  shows "find (isTeam teams teamId) (sortedTeams fp tbl) = None"
proof -
  have srt: "sorted_wrt (<) (obj_keys tbl)"
    using wf by (simp add: wfTable_def)
  have "\<not> isTeam teams teamId e" if e_in: "e \<in> set (sortedTeams fp tbl)" for e
  proof
    assume isT: "isTeam teams teamId e"
    obtain k c where kc: "(k, c) \<in> set tbl" and g: "0 < games c" and e: "e = defenseEntry fp c"
      using e_in unfolding mem_sortedTeams by blast
    have "k = teamId"
      using isTeam_defenseEntry [OF wf dn kc, of teamId] isT e by simp
    with kc have "obj_get tbl teamId = Some c"
      using srt by (simp add: obj_get_Some_iff)
    with no g show False by auto
  qed
  then show ?thesis
    unfolding find_None_iff by blast
qed

lemma min_max_clamp: "min 10 (max 0 x) = clamp x 0 10"
  by (simp add: clamp_def min_def max_def)

lemma clamp_range: "0 \<le> clamp x 0 10 \<and> clamp x 0 10 \<le> 10"
  by (simp add: clamp_def)

lemma clamp_mono: "x \<le> y \<Longrightarrow> clamp x 0 10 \<le> clamp y 0 10"
  by (simp add: clamp_def)

lemma getVulnerabilityScore_wf:
  assumes "wfStats teams s" "distinct (map team_name teams)" "pos \<in> {1, 2, 3, 4}"
    and "defenseResults this = calculateResults fp s" "bootstrapTeams this = teams"
  shows "getVulnerabilityScore this teamId pos = Inr (score_spec fp s teamId pos)"
proof -
  obtain tbl where tbl: "statsAt s pos = Some tbl"
    using assms(3) statsAt_Some_iff by blast
  obtain field where field: "positionMap pos = Some field"
    using assms(3) by (auto simp: positionMap_def)
  have wt: "wfTable teams tbl"
    using assms(1) tbl by (rule wfStats_statsAt)
  have data: "field (defenseResults this) = sortedTeams fp tbl"
    using field_calculateResults [OF tbl field] assms(4) by simp
  have cell: "cellAt s pos teamId = obj_get tbl teamId"
    using tbl by (simp add: cellAt_def)
  have code: "getVulnerabilityScore this teamId pos =
      (case find (isTeam teams teamId) (sortedTeams fp tbl) of
         None \<Rightarrow> Inr 0
       | Some td \<Rightarrow> Inr (clamp (avgPointsAllowedPerGame td * (5 / 2)) 0 10))"
    by (simp add: getVulnerabilityScore_def field data assms(5) min_max_clamp
        split: option.split)
  show ?thesis
  proof (cases "\<exists>c. obj_get tbl teamId = Some c \<and> 0 < games c")
    case True
    then obtain c where c: "obj_get tbl teamId = Some c" "0 < games c" by blast
    have "find (isTeam teams teamId) (sortedTeams fp tbl) = Some (defenseEntry fp c)"
      using wt assms(2) c by (rule find_sortedTeams_Some)
    then have "getVulnerabilityScore this teamId pos =
        Inr (clamp (avgPointsAllowedPerGame (defenseEntry fp c) * (5 / 2)) 0 10)"
      by (simp add: code)
    moreover have "score_spec fp s teamId pos =
        clamp (toFixed fp 2 (of_int (pointsAllowed c) / of_nat (games c)) * (5 / 2)) 0 10"
      using c by (simp add: score_spec_def cell)
    ultimately show ?thesis
      by (simp add: defenseEntry_def)
  next
    case False
    then have no: "\<forall>c. obj_get tbl teamId = Some c \<longrightarrow> games c = 0"
      by auto
    have "find (isTeam teams teamId) (sortedTeams fp tbl) = None"
      using wt assms(2) no by (rule find_sortedTeams_None)
    then have "getVulnerabilityScore this teamId pos = Inr 0"
      by (simp add: code)
    moreover have "score_spec fp s teamId pos = 0"
      using no by (cases "obj_get tbl teamId") (simp_all add: score_spec_def cell)
    ultimately show ?thesis by simp
  qed
qed

text \<open>
  Claim C2, as amended. The scorer finds a team through its name. With the defence
  results of the aggregator and the bootstrap teams, provided the team names are
  pairwise distinct, for every team id and every position 1 to 4 the scorer returns,
  and never throws: 0 when the cell (position, team) is absent or has no games,
  otherwise the two-decimal average times 2.5 clamped to \<open>[0, 10]\<close>. The two-decimal
  average is the one of the ranked table: a multiple of 0.01 within 0.005 of points by
  games, whichever way a tie of the rendering falls.
\<close>

theorem getVulnerabilityScore_spec:
  assumes "distinct (map team_name teams)"
    and "pos \<in> {1, 2, 3, 4}"
    and "s = processAll players src (initialize teams)"
    and "defenseResults this = calculateResults fp s"
    and "bootstrapTeams this = teams"
  shows "getVulnerabilityScore this teamId pos = Inr (score_spec fp s teamId pos) \<and>
         (cellAt s pos teamId = None \<longrightarrow> getVulnerabilityScore this teamId pos = Inr 0) \<and>
         (\<forall>c. cellAt s pos teamId = Some c \<and> games c = 0
                \<longrightarrow> getVulnerabilityScore this teamId pos = Inr 0) \<and>
         (\<forall>c. cellAt s pos teamId = Some c \<and> 0 < games c
                \<longrightarrow> (\<exists>avg. rendersTwoDecimals (of_int (pointsAllowed c) / of_nat (games c)) avg \<and>
                       getVulnerabilityScore this teamId pos
                         = Inr (clamp (avg * (5 / 2)) 0 10)))"
proof -
  have "wfStats teams s"
    unfolding assms(3) by (rule wfStats_processAll)
  then have sc: "getVulnerabilityScore this teamId pos = Inr (score_spec fp s teamId pos)"
    using assms(1,2,4,5) by (rule getVulnerabilityScore_wf)
  have "\<exists>avg. rendersTwoDecimals (of_int (pointsAllowed c) / of_nat (games c)) avg \<and>
      getVulnerabilityScore this teamId pos = Inr (clamp (avg * (5 / 2)) 0 10)"
    if "cellAt s pos teamId = Some c \<and> 0 < games c" for c
  proof (intro exI conjI)
    show "rendersTwoDecimals (of_int (pointsAllowed c) / of_nat (games c))
        (toFixed fp 2 (of_int (pointsAllowed c) / of_nat (games c)))"
      by (rule rendersTwoDecimals_toFixed)
    show "getVulnerabilityScore this teamId pos
        = Inr (clamp (toFixed fp 2 (of_int (pointsAllowed c) / of_nat (games c)) * (5 / 2)) 0 10)"
      using that by (simp add: sc score_spec_def)
  qed
  moreover have "cellAt s pos teamId = None \<longrightarrow> getVulnerabilityScore this teamId pos = Inr 0"
    by (simp add: sc score_spec_def)
  moreover have "\<forall>c. cellAt s pos teamId = Some c \<and> games c = 0
      \<longrightarrow> getVulnerabilityScore this teamId pos = Inr 0"
    by (simp add: sc score_spec_def)
  ultimately show ?thesis
    using sc by blast
qed

lemma sampleStats_cells:
  "cellAt sampleStats 4 3 = Some \<lparr>cell_name = ''Team X'', pointsAllowed = 8, games = 1\<rparr>"
  "cellAt sampleStats 4 5 = Some \<lparr>cell_name = ''Team Y'', pointsAllowed = 1, games = 1\<rparr>"
  "cellAt sampleStats (Suc 0) 3 = Some \<lparr>cell_name = ''Team X'', pointsAllowed = 0, games = 0\<rparr>"
  "cellAt sampleStats 4 6 = None"
proof -
  have eq: "sampleStats =
      \<lparr>stats1 = [(3, zeroCell teamX), (5, zeroCell teamY)],
       stats2 = [(3, zeroCell teamX), (5, zeroCell teamY)],
       stats3 = [(3, zeroCell teamX), (5, zeroCell teamY)],
       stats4 = [(3, \<lparr>cell_name = ''Team X'', pointsAllowed = 8, games = 1\<rparr>),
                 (5, \<lparr>cell_name = ''Team Y'', pointsAllowed = 1, games = 1\<rparr>)]\<rparr>"
    by (simp add: sampleStats_def processAll_def samplePlayers_def sampleSource_def
        processPlayerData_def forward9_def forward8_def initialize_def sampleTeams_def
        initTeam_def newTeamDefenseStats_def processGameweek_def record8_def record1_def
        statsAt_def statsSet_def obj_get_def zeroCell_def teamX_def teamY_def)
  show
    "cellAt sampleStats 4 3 = Some \<lparr>cell_name = ''Team X'', pointsAllowed = 8, games = 1\<rparr>"
    "cellAt sampleStats 4 5 = Some \<lparr>cell_name = ''Team Y'', pointsAllowed = 1, games = 1\<rparr>"
    "cellAt sampleStats (Suc 0) 3 = Some \<lparr>cell_name = ''Team X'', pointsAllowed = 0, games = 0\<rparr>"
    "cellAt sampleStats 4 6 = None"
    by (simp_all add: eq cellAt_def statsAt_def obj_get_def zeroCell_def teamX_def)
qed

lemma sample_scores:
  "score_spec halfUp sampleStats 3 4 = 10" "score_spec halfUp sampleStats 5 4 = 5 / 2"
  "score_spec halfUp sampleStats 3 (Suc 0) = 0" "score_spec halfUp sampleStats 6 4 = 0"
  using toFixed_of_grid [of halfUp 2 800] toFixed_of_grid [of halfUp 2 100]
  by (simp_all add: score_spec_def sampleStats_cells clamp_def)

lemma sampleTeams_distinct: "distinct (map team_name sampleTeams)"
  by (simp add: sampleTeams_def teamX_def teamY_def)

lemma sample_score_X: "getVulnerabilityScore sampleAnalyzer 3 4 = Inr 10"
  and sample_score_Y: "getVulnerabilityScore sampleAnalyzer 5 4 = Inr (5 / 2)"
proof -
  have wf: "wfStats sampleTeams sampleStats"
    unfolding sampleStats_def by (rule wfStats_processAll)
  have sc: "getVulnerabilityScore sampleAnalyzer t 4 = Inr (score_spec halfUp sampleStats t 4)" for t
    using wf sampleTeams_distinct
    by (rule getVulnerabilityScore_wf) (simp_all add: sampleAnalyzer_def)
  show "getVulnerabilityScore sampleAnalyzer 3 4 = Inr 10"
    and "getVulnerabilityScore sampleAnalyzer 5 4 = Inr (5 / 2)"
    by (simp_all add: sc sample_scores)
qed

theorem getVulnerabilityScore_spec_witness:
  "distinct (map team_name sampleTeams) \<and>
   getVulnerabilityScore sampleAnalyzer 3 4 = Inr 10 \<and>
   getVulnerabilityScore sampleAnalyzer 5 4 = Inr (5 / 2) \<and>
   getVulnerabilityScore sampleAnalyzer 3 1 = Inr 0 \<and>
   getVulnerabilityScore sampleAnalyzer 6 4 = Inr 0"
proof -
  have d: "defenseResults sampleAnalyzer = calculateResults halfUp sampleStats"
    and b: "bootstrapTeams sampleAnalyzer = sampleTeams"
    by (simp_all add: sampleAnalyzer_def)
  have p4: "(4::nat) \<in> {1, 2, 3, 4}" and p1: "(1::nat) \<in> {1, 2, 3, 4}"
    by simp_all
  note thm4 = getVulnerabilityScore_spec [OF sampleTeams_distinct p4 sampleStats_def d b,
      THEN conjunct1]
  note thm1 = getVulnerabilityScore_spec [OF sampleTeams_distinct p1 sampleStats_def d b,
      THEN conjunct1]
  show ?thesis
    using thm4 [of 3] thm4 [of 5] thm4 [of 6] thm1 [of 3] sampleTeams_distinct
    by (simp add: sample_scores)
qed

text \<open>
  The claim as stated fails when two teams share a name: the entry of the second team
  resolves to the id of the first, so the second team scores 0 although its cell has a
  game with 8 points, and the first scores 10 although its cell has no game.
\<close>

theorem twin_names_score_wrong_cell:
  "cellAt twinStats 4 6 = Some \<lparr>cell_name = ''Twin'', pointsAllowed = 8, games = 1\<rparr> \<and>
   score_spec halfUp twinStats 6 4 = 10 \<and>
   getVulnerabilityScore twinAnalyzer 6 4 = Inr 0 \<and>
   cellAt twinStats 4 4 = Some \<lparr>cell_name = ''Twin'', pointsAllowed = 0, games = 0\<rparr> \<and>
   score_spec halfUp twinStats 4 4 = 0 \<and>
   getVulnerabilityScore twinAnalyzer 4 4 = Inr 10"
proof -
  have eq: "twinStats =
      \<lparr>stats1 = [(4, \<lparr>cell_name = ''Twin'', pointsAllowed = 0, games = 0\<rparr>),
                 (6, \<lparr>cell_name = ''Twin'', pointsAllowed = 0, games = 0\<rparr>)],
       stats2 = [(4, \<lparr>cell_name = ''Twin'', pointsAllowed = 0, games = 0\<rparr>),
                 (6, \<lparr>cell_name = ''Twin'', pointsAllowed = 0, games = 0\<rparr>)],
       stats3 = [(4, \<lparr>cell_name = ''Twin'', pointsAllowed = 0, games = 0\<rparr>),
                 (6, \<lparr>cell_name = ''Twin'', pointsAllowed = 0, games = 0\<rparr>)],
       stats4 = [(4, \<lparr>cell_name = ''Twin'', pointsAllowed = 0, games = 0\<rparr>),
                 (6, \<lparr>cell_name = ''Twin'', pointsAllowed = 8, games = 1\<rparr>)]\<rparr>"
    by (simp add: twinStats_def processAll_def processPlayerData_def forward9_def
        initialize_def twinTeams_def initTeam_def newTeamDefenseStats_def sameHistory_def
        processGameweek_def record8_def statsAt_def statsSet_def obj_get_def zeroCell_def)
  have cells: "cellAt twinStats 4 6 = Some \<lparr>cell_name = ''Twin'', pointsAllowed = 8, games = 1\<rparr>"
    "cellAt twinStats 4 4 = Some \<lparr>cell_name = ''Twin'', pointsAllowed = 0, games = 0\<rparr>"
    by (simp_all add: eq cellAt_def statsAt_def obj_get_def)
  have f8: "toFixed halfUp 2 8 = 8"
    using toFixed_of_grid [of halfUp 2 800] by simp
  have spec: "score_spec halfUp twinStats 6 4 = 10" "score_spec halfUp twinStats 4 4 = 0"
    by (simp_all add: score_spec_def cells f8 clamp_def)
  have res: "forwards (calculateResults halfUp twinStats) =
      [\<lparr>name = ''Twin'', totalPointsAllowed = 8, gamesPlayed = 1, avgPointsAllowedPerGame = 8\<rparr>]"
    by (simp add: calculateResults_def eq sortedTeams_def obj_values_def defenseEntry_def f8)
  have code: "getVulnerabilityScore twinAnalyzer 6 4 = Inr 0"
    "getVulnerabilityScore twinAnalyzer 4 4 = Inr 10"
    by (simp_all add: getVulnerabilityScore_def positionMap_def twinAnalyzer_def res isTeam_def
        twinTeams_def)
  from cells spec code show ?thesis by simp
qed

subsection \<open>Monotone and bounded\<close>

lemma score_spec_mono:
  assumes "cellAt s pos teamA = Some ca" "cellAt s pos teamB = Some cb"
    and "0 < games ca" "0 < games cb"
    and "(of_int (pointsAllowed cb) :: rat) / of_nat (games cb)
           \<le> of_int (pointsAllowed ca) / of_nat (games ca)"
  shows "score_spec fp s teamB pos \<le> score_spec fp s teamA pos"
proof -
  have "toFixed fp 2 (of_int (pointsAllowed cb) / of_nat (games cb)) * (5 / 2)
      \<le> toFixed fp 2 (of_int (pointsAllowed ca) / of_nat (games ca)) * (5 / 2)"
    using toFixed_mono [OF assms(5), of fp 2] by simp
  then show ?thesis
    using assms(1-4) by (simp add: score_spec_def clamp_mono)
qed

lemma getVulnerabilityScore_range:
  "case getVulnerabilityScore an teamId pos of
     Inl e \<Rightarrow> pos \<notin> {1, 2, 3, 4}
   | Inr v \<Rightarrow> pos \<in> {1, 2, 3, 4} \<and> 0 \<le> v \<and> v \<le> 10"
proof (cases "pos \<in> {1, 2, 3, 4}")
  case True
  then obtain field where "positionMap pos = Some field"
    by (auto simp: positionMap_def)
  with True show ?thesis
    by (simp add: getVulnerabilityScore_def Let_def split: option.split)
next
  case False
  then have "positionMap pos = None"
    by (simp add: positionMap_def)
  with False show ?thesis
    by (simp add: getVulnerabilityScore_def)
qed

text \<open>
  Claim C3, as amended. The scorer either throws (only for a position outside 1 to 4) or
  returns a score in \<open>[0, 10]\<close>. With the defence results of the aggregator and pairwise
  distinct team names, for a fixed position and two teams whose cells have games, a
  greater average of points allowed per game (the exact quotient, or its two-decimal
  rendering) never gives a smaller score.
\<close>

theorem getVulnerabilityScore_monotone_bounded:
  "(case getVulnerabilityScore an teamId pos of
      Inl e \<Rightarrow> pos \<notin> {1, 2, 3, 4}
    | Inr v \<Rightarrow> pos \<in> {1, 2, 3, 4} \<and> 0 \<le> v \<and> v \<le> 10) \<and>
   (distinct (map team_name teams) \<and> pos \<in> {1, 2, 3, 4} \<and>
    s = processAll players src (initialize teams) \<and>
    defenseResults an = calculateResults fp s \<and> bootstrapTeams an = teams \<and>
    cellAt s pos teamA = Some ca \<and> cellAt s pos teamB = Some cb \<and>
    0 < games ca \<and> 0 < games cb \<and>
    ((of_int (pointsAllowed cb) :: rat) / of_nat (games cb)
        < of_int (pointsAllowed ca) / of_nat (games ca) \<or>
     toFixed fp 2 (of_int (pointsAllowed cb) / of_nat (games cb))
        < toFixed fp 2 (of_int (pointsAllowed ca) / of_nat (games ca)))
    \<longrightarrow> (\<exists>va vb. getVulnerabilityScore an teamA pos = Inr va \<and>
                 getVulnerabilityScore an teamB pos = Inr vb \<and> vb \<le> va))"
proof (intro conjI impI)
  show "case getVulnerabilityScore an teamId pos of
      Inl e \<Rightarrow> pos \<notin> {1, 2, 3, 4}
    | Inr v \<Rightarrow> pos \<in> {1, 2, 3, 4} \<and> 0 \<le> v \<and> v \<le> 10"
    by (rule getVulnerabilityScore_range)
next
  let ?qa = "(of_int (pointsAllowed ca) :: rat) / of_nat (games ca)"
  let ?qb = "(of_int (pointsAllowed cb) :: rat) / of_nat (games cb)"
  assume a: "distinct (map team_name teams) \<and> pos \<in> {1, 2, 3, 4} \<and>
    s = processAll players src (initialize teams) \<and>
    defenseResults an = calculateResults fp s \<and> bootstrapTeams an = teams \<and>
    cellAt s pos teamA = Some ca \<and> cellAt s pos teamB = Some cb \<and>
    0 < games ca \<and> 0 < games cb \<and>
    (?qb < ?qa \<or> toFixed fp 2 ?qb < toFixed fp 2 ?qa)"
  then have dn: "distinct (map team_name teams)" and pos: "pos \<in> {1, 2, 3, 4}"
    and s: "s = processAll players src (initialize teams)"
    and dr: "defenseResults an = calculateResults fp s" and bt: "bootstrapTeams an = teams"
    and ca: "cellAt s pos teamA = Some ca" and cb: "cellAt s pos teamB = Some cb"
    and ga: "0 < games ca" and gb: "0 < games cb"
    and lt: "?qb < ?qa \<or> toFixed fp 2 ?qb < toFixed fp 2 ?qa"
    by blast+
  have wf: "wfStats teams s"
    unfolding s by (rule wfStats_processAll)
  have sc: "getVulnerabilityScore an t pos = Inr (score_spec fp s t pos)" for t
    using wf dn pos dr bt by (rule getVulnerabilityScore_wf)
  have "?qb \<le> ?qa"
  proof (rule ccontr)
    assume "\<not> ?qb \<le> ?qa"
    then have "?qa \<le> ?qb" by simp
    then have "toFixed fp 2 ?qa \<le> toFixed fp 2 ?qb" by (rule toFixed_mono)
    with lt \<open>\<not> ?qb \<le> ?qa\<close> show False by linarith
  qed
  with ca cb ga gb have "score_spec fp s teamB pos \<le> score_spec fp s teamA pos"
    by (rule score_spec_mono)
  then show "\<exists>va vb. getVulnerabilityScore an teamA pos = Inr va \<and>
                 getVulnerabilityScore an teamB pos = Inr vb \<and> vb \<le> va"
    using sc by simp
qed

theorem getVulnerabilityScore_monotone_bounded_witness:
  "distinct (map team_name sampleTeams) \<and>
   (of_int (pointsAllowed \<lparr>cell_name = ''Team Y'', pointsAllowed = 1, games = 1\<rparr>) :: rat)
      / of_nat (games \<lparr>cell_name = ''Team Y'', pointsAllowed = 1, games = 1\<rparr>)
     < of_int (pointsAllowed \<lparr>cell_name = ''Team X'', pointsAllowed = 8, games = 1\<rparr>)
      / of_nat (games \<lparr>cell_name = ''Team X'', pointsAllowed = 8, games = 1\<rparr>) \<and>
   (\<exists>va vb. getVulnerabilityScore sampleAnalyzer 3 4 = Inr va \<and>
            getVulnerabilityScore sampleAnalyzer 5 4 = Inr vb \<and> vb \<le> va \<and>
            0 \<le> vb \<and> va \<le> 10)"
proof -
  let ?cx = "\<lparr>cell_name = ''Team X'', pointsAllowed = 8, games = 1\<rparr>"
  let ?cy = "\<lparr>cell_name = ''Team Y'', pointsAllowed = 1, games = 1\<rparr>"
  have d: "defenseResults sampleAnalyzer = calculateResults halfUp sampleStats"
    and b: "bootstrapTeams sampleAnalyzer = sampleTeams"
    by (simp_all add: sampleAnalyzer_def)
  have lt: "(of_int (pointsAllowed ?cy) :: rat) / of_nat (games ?cy)
      < of_int (pointsAllowed ?cx) / of_nat (games ?cx)"
    by simp
  note t = getVulnerabilityScore_monotone_bounded [where an = sampleAnalyzer and pos = 4
      and teams = sampleTeams and s = sampleStats and players = samplePlayers
      and src = sampleSource and teamA = 3 and ca = ?cx and teamB = 5 and cb = ?cy
      and fp = halfUp]
  have mono: "\<exists>va vb. getVulnerabilityScore sampleAnalyzer 3 4 = Inr va \<and>
      getVulnerabilityScore sampleAnalyzer 5 4 = Inr vb \<and> vb \<le> va"
    using t [where teamId = 3] sampleTeams_distinct sampleStats_def d b sampleStats_cells(1,2) lt
    by simp
  have "case getVulnerabilityScore sampleAnalyzer 3 4 of
      Inl e \<Rightarrow> (4::nat) \<notin> {1, 2, 3, 4}
    | Inr v \<Rightarrow> (4::nat) \<in> {1, 2, 3, 4} \<and> 0 \<le> v \<and> v \<le> 10"
    and "case getVulnerabilityScore sampleAnalyzer 5 4 of
      Inl e \<Rightarrow> (4::nat) \<notin> {1, 2, 3, 4}
    | Inr v \<Rightarrow> (4::nat) \<in> {1, 2, 3, 4} \<and> 0 \<le> v \<and> v \<le> 10"
    using t [where teamId = 3] t [where teamId = 5] by blast+
  with mono lt sampleTeams_distinct show ?thesis
    by (auto split: sum.splits)
qed

text \<open>
  The claim as stated fails when two teams share a name. Both entries of the ranked
  table resolve to the id of the first team, and the scorer takes the first entry it
  finds: the second team, which allowed 3.00 points per game, scores 0, and the first,
  which allowed 1.00, scores 7.5 (the score of the second team's entry).
\<close>

theorem twin_names_not_monotone:
  "cellAt twinSeason 4 6 = Some \<lparr>cell_name = ''Twin'', pointsAllowed = 3, games = 1\<rparr> \<and>
   cellAt twinSeason 4 4 = Some \<lparr>cell_name = ''Twin'', pointsAllowed = 1, games = 1\<rparr> \<and>
   forwards (defenseResults twinSeasonAnalyzer)
     = [\<lparr>name = ''Twin'', totalPointsAllowed = 3, gamesPlayed = 1, avgPointsAllowedPerGame = 3\<rparr>,
        \<lparr>name = ''Twin'', totalPointsAllowed = 1, gamesPlayed = 1, avgPointsAllowedPerGame = 1\<rparr>] \<and>
   getVulnerabilityScore twinSeasonAnalyzer 6 4 = Inr 0 \<and>
   getVulnerabilityScore twinSeasonAnalyzer 4 4 = Inr (15 / 2)"
proof -
  have eq: "twinSeason =
      \<lparr>stats1 = [(4, \<lparr>cell_name = ''Twin'', pointsAllowed = 0, games = 0\<rparr>),
                 (6, \<lparr>cell_name = ''Twin'', pointsAllowed = 0, games = 0\<rparr>)],
       stats2 = [(4, \<lparr>cell_name = ''Twin'', pointsAllowed = 0, games = 0\<rparr>),
                 (6, \<lparr>cell_name = ''Twin'', pointsAllowed = 0, games = 0\<rparr>)],
       stats3 = [(4, \<lparr>cell_name = ''Twin'', pointsAllowed = 0, games = 0\<rparr>),
                 (6, \<lparr>cell_name = ''Twin'', pointsAllowed = 0, games = 0\<rparr>)],
       stats4 = [(4, \<lparr>cell_name = ''Twin'', pointsAllowed = 1, games = 1\<rparr>),
                 (6, \<lparr>cell_name = ''Twin'', pointsAllowed = 3, games = 1\<rparr>)]\<rparr>"
    by (simp add: twinSeason_def processAll_def processPlayerData_def forward9_def forward8_def
        initialize_def twinTeams_def initTeam_def newTeamDefenseStats_def twinSource_def
        processGameweek_def record3_def record1_def statsAt_def statsSet_def obj_get_def
        zeroCell_def)
  have cells:
    "cellAt twinSeason 4 6 = Some \<lparr>cell_name = ''Twin'', pointsAllowed = 3, games = 1\<rparr>"
    "cellAt twinSeason 4 4 = Some \<lparr>cell_name = ''Twin'', pointsAllowed = 1, games = 1\<rparr>"
    by (simp_all add: eq cellAt_def statsAt_def obj_get_def)
  have f: "toFixed halfUp 2 3 = 3" "toFixed halfUp 2 1 = 1"
    using toFixed_of_grid [of halfUp 2 300] toFixed_of_grid [of halfUp 2 100] by simp_all
  have res: "forwards (calculateResults halfUp twinSeason) =
      [\<lparr>name = ''Twin'', totalPointsAllowed = 3, gamesPlayed = 1, avgPointsAllowedPerGame = 3\<rparr>,
       \<lparr>name = ''Twin'', totalPointsAllowed = 1, gamesPlayed = 1, avgPointsAllowedPerGame = 1\<rparr>]"
    by (simp add: calculateResults_def eq sortedTeams_def obj_values_def defenseEntry_def f)
  have res': "forwards (defenseResults twinSeasonAnalyzer) =
      [\<lparr>name = ''Twin'', totalPointsAllowed = 3, gamesPlayed = 1, avgPointsAllowedPerGame = 3\<rparr>,
       \<lparr>name = ''Twin'', totalPointsAllowed = 1, gamesPlayed = 1, avgPointsAllowedPerGame = 1\<rparr>]"
    by (simp add: twinSeasonAnalyzer_def res)
  have code: "getVulnerabilityScore twinSeasonAnalyzer 6 4 = Inr 0"
    "getVulnerabilityScore twinSeasonAnalyzer 4 4 = Inr (15 / 2)"
    by (simp_all add: getVulnerabilityScore_def positionMap_def twinSeasonAnalyzer_def res
        isTeam_def twinTeams_def)
  from cells res' code show ?thesis by simp
qed
subsection \<open>The current gameweek\<close>

lemma mathMax_Max: "xs \<noteq> [] \<Longrightarrow> mathMax xs = Some (Max (set xs))"
proof (cases xs)
  case Nil
  then show "xs \<noteq> [] \<Longrightarrow> ?thesis" by simp
next
  case (Cons x r)
  have "Max (set (x # r)) = fold max r x"
    by (rule Max.set_eq_fold)
  with Cons show ?thesis by simp
qed

lemma kickoff_order_trans:
  fixes a b d :: Fixture
  assumes "newDate (kickoff_time a) - newDate (kickoff_time b) \<le> 0"
    and "newDate (kickoff_time b) - newDate (kickoff_time d) \<le> 0"
  shows "newDate (kickoff_time a) - newDate (kickoff_time d) \<le> 0"
  using assms by linarith

lemma upcomingFixtures_set:
  "set (upcomingFixtures fs) = {f \<in> set fs. \<not> finished f \<and> \<not> started f}"
  by (auto simp: upcomingFixtures_def set_sort_cmp)

lemma upcomingFixtures_hd_earliest:
  assumes "upcomingFixtures fs = f # r" "g \<in> set (upcomingFixtures fs)"
  shows "newDate (kickoff_time f) \<le> newDate (kickoff_time g)"
proof -
  let ?c = "\<lambda>a b. newDate (kickoff_time a) - newDate (kickoff_time b)"
  have "sorted_wrt (\<lambda>a b. ?c a b \<le> 0) (upcomingFixtures fs)"
    unfolding upcomingFixtures_def
  proof (rule sorted_sort_cmp [where S = UNIV])
    fix a b d :: Fixture
    assume "?c a b \<le> 0" "?c b d \<le> 0"
    then show "?c a d \<le> 0" by (rule kickoff_order_trans)
  next
    fix a b :: Fixture
    show "?c a b \<le> 0 \<or> ?c b a \<le> 0" by linarith
  qed simp
  then have "\<forall>x \<in> set r. ?c f x \<le> 0"
    using assms(1) by simp
  moreover have "g = f \<or> g \<in> set r"
    using assms by simp
  ultimately show ?thesis by auto
qed

lemma find_filter_hd:
  "find P xs = (case filter P xs of [] \<Rightarrow> None | y # _ \<Rightarrow> Some y)"
  by (induction xs) simp_all

lemma upcomingFixtures_same_kickoff:
  "filter (\<lambda>x. newDate (kickoff_time x) = m) (upcomingFixtures fs)
     = filter (\<lambda>x. newDate (kickoff_time x) = m)
         (filter (\<lambda>f. finished f = False \<and> started f = False) fs)"
  unfolding upcomingFixtures_def
proof (rule filter_sort_cmp)
  fix x y :: Fixture
  assume "newDate (kickoff_time x) = m" "newDate (kickoff_time y) = m"
  then show "newDate (kickoff_time x) - newDate (kickoff_time y) \<le> 0" by simp
qed

lemma kickoff_newDate: "kickoff f = newDate (kickoff_time f)"
  by (simp add: kickoff_def newDate_def)

lemma getCurrentGameweek_first_earliest:
  assumes "\<exists>f \<in> set (fixtures an). \<not> started f \<and> \<not> finished f"
  shows "\<exists>f. find (\<lambda>x. \<not> started x \<and> \<not> finished x \<and>
                     (\<forall>g \<in> set (fixtures an). \<not> started g \<and> \<not> finished g
                        \<longrightarrow> kickoff x \<le> kickoff g))
               (fixtures an) = Some f \<and>
             getCurrentGameweek an = (case event f of None \<Rightarrow> GwNull | Some g \<Rightarrow> GwNum g)"
proof -
  let ?fs = "fixtures an"
  let ?P = "\<lambda>x. \<not> started x \<and> \<not> finished x \<and>
              (\<forall>g \<in> set ?fs. \<not> started g \<and> \<not> finished g
                 \<longrightarrow> newDate (kickoff_time x) \<le> newDate (kickoff_time g))"
  have "set (upcomingFixtures ?fs) \<noteq> {}"
    using assms unfolding upcomingFixtures_set by blast
  then obtain f r where fr: "upcomingFixtures ?fs = f # r"
    by (cases "upcomingFixtures ?fs") auto
  let ?m = "newDate (kickoff_time f)"
  have f_in: "f \<in> set (upcomingFixtures ?fs)"
    using fr by simp
  have least: "?m \<le> newDate (kickoff_time g)" if "g \<in> set (upcomingFixtures ?fs)" for g
    using upcomingFixtures_hd_earliest [OF fr that] .
  have P_iff: "?P x \<longleftrightarrow> (finished x = False \<and> started x = False) \<and> newDate (kickoff_time x) = ?m"
    if "x \<in> set ?fs" for x
  proof
    assume p: "?P x"
    then have "x \<in> set (upcomingFixtures ?fs)"
      using that unfolding upcomingFixtures_set by blast
    then have "?m \<le> newDate (kickoff_time x)" by (rule least)
    moreover have "newDate (kickoff_time x) \<le> ?m"
      using p f_in unfolding upcomingFixtures_set by blast
    ultimately show "(finished x = False \<and> started x = False) \<and> newDate (kickoff_time x) = ?m"
      using p by simp
  next
    assume q: "(finished x = False \<and> started x = False) \<and> newDate (kickoff_time x) = ?m"
    have "newDate (kickoff_time x) \<le> newDate (kickoff_time g)"
      if "g \<in> set ?fs" "\<not> started g \<and> \<not> finished g" for g
    proof -
      have "g \<in> set (upcomingFixtures ?fs)"
        using that unfolding upcomingFixtures_set by blast
      then show ?thesis using least q by simp
    qed
    with q show "?P x" by blast
  qed
  have "filter ?P ?fs
      = filter (\<lambda>x. (finished x = False \<and> started x = False) \<and> newDate (kickoff_time x) = ?m) ?fs"
    by (rule filter_cong) (simp_all add: P_iff)
  also have "\<dots> = filter (\<lambda>x. newDate (kickoff_time x) = ?m)
                     (filter (\<lambda>f. finished f = False \<and> started f = False) ?fs)"
    by (simp add: conj_commute)
  also have "\<dots> = filter (\<lambda>x. newDate (kickoff_time x) = ?m) (upcomingFixtures ?fs)"
    by (rule upcomingFixtures_same_kickoff [symmetric])
  also have "\<dots> = f # filter (\<lambda>x. newDate (kickoff_time x) = ?m) r"
    by (simp add: fr)
  finally have "find ?P ?fs = Some f"
    by (simp add: find_filter_hd [of ?P ?fs])
  moreover have "getCurrentGameweek an = (case event f of None \<Rightarrow> GwNull | Some g \<Rightarrow> GwNum g)"
    by (simp add: getCurrentGameweek_def fr eventValue_def)
  ultimately show ?thesis
    unfolding kickoff_newDate by blast
qed

text \<open>
  The maximum observed gameweek exists for every list with a fixture, there is only one,
  and the fallback adds 1 to it and clamps at 38.
\<close>

lemma maxObserved_iff:
  "maxObserved fs m \<longleftrightarrow> fs \<noteq> [] \<and> m = Max (eventOrZero ` set fs)"
proof -
  have a: "(event f = Some m \<or> (event f = None \<and> m = 0)) = (eventOrZero f = m)" for f
    by (cases "event f") (auto simp: eventOrZero_def)
  have b: "(case event f of None \<Rightarrow> 0 \<le> m | Some g \<Rightarrow> g \<le> m) = (eventOrZero f \<le> m)" for f
    by (cases "event f") (auto simp: eventOrZero_def)
  have def: "maxObserved fs m \<longleftrightarrow>
      (\<exists>f \<in> set fs. eventOrZero f = m) \<and> (\<forall>f \<in> set fs. eventOrZero f \<le> m)"
    unfolding maxObserved_def a b ..
  show ?thesis
  proof
    assume mo: "maxObserved fs m"
    then have ne: "fs \<noteq> []"
      unfolding def by auto
    have "Max (eventOrZero ` set fs) = m"
    proof (rule Max_eqI)
      show "finite (eventOrZero ` set fs)" by simp
      show "y \<le> m" if "y \<in> eventOrZero ` set fs" for y
        using that mo unfolding def by auto
      show "m \<in> eventOrZero ` set fs"
        using mo unfolding def by auto
    qed
    with ne show "fs \<noteq> [] \<and> m = Max (eventOrZero ` set fs)" by simp
  next
    assume h: "fs \<noteq> [] \<and> m = Max (eventOrZero ` set fs)"
    then have ne: "eventOrZero ` set fs \<noteq> {}" by simp
    have fin: "finite (eventOrZero ` set fs)" by simp
    have "Max (eventOrZero ` set fs) \<in> eventOrZero ` set fs"
      using fin ne by (rule Max_in)
    then have "\<exists>f \<in> set fs. eventOrZero f = Max (eventOrZero ` set fs)"
      by (metis imageE)
    moreover have "\<forall>f \<in> set fs. eventOrZero f \<le> Max (eventOrZero ` set fs)"
      using fin by (simp add: Max_ge)
    ultimately show "maxObserved fs m"
      unfolding def using h by simp
  qed
qed

lemma getCurrentGameweek_fallback:
  assumes "\<forall>f \<in> set (fixtures an). started f \<or> finished f" "maxObserved (fixtures an) m"
  shows "getCurrentGameweek an = GwNum (min 38 (m + 1))"
proof -
  have ne: "fixtures an \<noteq> []" and m: "m = Max (eventOrZero ` set (fixtures an))"
    using assms(2) unfolding maxObserved_iff by simp_all
  have "set (upcomingFixtures (fixtures an)) = {}"
    unfolding upcomingFixtures_set using assms(1) by blast
  then have "upcomingFixtures (fixtures an) = []" by simp
  moreover have "mathMax (map eventOrZero (fixtures an))
      = Some (Max (eventOrZero ` set (fixtures an)))"
    using ne mathMax_Max [of "map eventOrZero (fixtures an)"] by simp
  ultimately show ?thesis
    by (simp add: getCurrentGameweek_def m)
qed

text \<open>
  Claim C8, as amended. When some fixture is neither started nor finished, the current
  gameweek is the gameweek of the one with the earliest kickoff among them (the first of
  these in the list when several share that kickoff; \<^verbatim>\<open>null\<close> when that fixture is not
  scheduled). When there is none and the list has a fixture, a maximum observed gameweek
  exists and the current gameweek is min(38, maximum + 1); so with a maximum observed
  gameweek of 38 it is 38. (With no fixture at all there is no observed gameweek, and
  the code returns no gameweek: see the counterexample.)
\<close>

theorem getCurrentGameweek_resolution:
  "((\<exists>f \<in> set (fixtures an). \<not> started f \<and> \<not> finished f) \<longrightarrow>
      (\<exists>f \<in> set (fixtures an). \<not> started f \<and> \<not> finished f \<and>
         (\<forall>g \<in> set (fixtures an). \<not> started g \<and> \<not> finished g \<longrightarrow> kickoff f \<le> kickoff g) \<and>
         find (\<lambda>x. \<not> started x \<and> \<not> finished x \<and>
                 (\<forall>g \<in> set (fixtures an). \<not> started g \<and> \<not> finished g
                    \<longrightarrow> kickoff x \<le> kickoff g))
           (fixtures an) = Some f \<and>
         getCurrentGameweek an = (case event f of None \<Rightarrow> GwNull | Some g \<Rightarrow> GwNum g))) \<and>
   ((\<forall>f \<in> set (fixtures an). started f \<or> finished f) \<and> fixtures an \<noteq> [] \<longrightarrow>
      (\<exists>m. maxObserved (fixtures an) m \<and> getCurrentGameweek an = GwNum (min 38 (m + 1)))) \<and>
   ((\<forall>f \<in> set (fixtures an). started f \<or> finished f) \<and> maxObserved (fixtures an) m \<longrightarrow>
      getCurrentGameweek an = GwNum (min 38 (m + 1))) \<and>
   ((\<forall>f \<in> set (fixtures an). started f \<or> finished f) \<and> maxObserved (fixtures an) 38 \<longrightarrow>
      getCurrentGameweek an = GwNum 38)"
proof (intro conjI impI)
  assume "\<exists>f \<in> set (fixtures an). \<not> started f \<and> \<not> finished f"
  then obtain f where
    fnd: "find (\<lambda>x. \<not> started x \<and> \<not> finished x \<and>
                 (\<forall>g \<in> set (fixtures an). \<not> started g \<and> \<not> finished g
                    \<longrightarrow> kickoff x \<le> kickoff g))
           (fixtures an) = Some f"
    and cur: "getCurrentGameweek an = (case event f of None \<Rightarrow> GwNull | Some g \<Rightarrow> GwNum g)"
    using getCurrentGameweek_first_earliest by blast
  from fnd have "f \<in> set (fixtures an)" "\<not> started f \<and> \<not> finished f \<and>
      (\<forall>g \<in> set (fixtures an). \<not> started g \<and> \<not> finished g \<longrightarrow> kickoff f \<le> kickoff g)"
    unfolding find_Some_iff by (auto simp: in_set_conv_nth)
  with fnd cur show "\<exists>f \<in> set (fixtures an). \<not> started f \<and> \<not> finished f \<and>
         (\<forall>g \<in> set (fixtures an). \<not> started g \<and> \<not> finished g \<longrightarrow> kickoff f \<le> kickoff g) \<and>
         find (\<lambda>x. \<not> started x \<and> \<not> finished x \<and>
                 (\<forall>g \<in> set (fixtures an). \<not> started g \<and> \<not> finished g
                    \<longrightarrow> kickoff x \<le> kickoff g))
           (fixtures an) = Some f \<and>
         getCurrentGameweek an = (case event f of None \<Rightarrow> GwNull | Some g \<Rightarrow> GwNum g)"
    by blast
next
  assume a: "(\<forall>f \<in> set (fixtures an). started f \<or> finished f) \<and> fixtures an \<noteq> []"
  then have "maxObserved (fixtures an) (Max (eventOrZero ` set (fixtures an)))"
    unfolding maxObserved_iff by simp
  then show "\<exists>m. maxObserved (fixtures an) m \<and> getCurrentGameweek an = GwNum (min 38 (m + 1))"
    using a getCurrentGameweek_fallback by blast
next
  assume "(\<forall>f \<in> set (fixtures an). started f \<or> finished f) \<and> maxObserved (fixtures an) m"
  then show "getCurrentGameweek an = GwNum (min 38 (m + 1))"
    using getCurrentGameweek_fallback by blast
next
  assume "(\<forall>f \<in> set (fixtures an). started f \<or> finished f) \<and> maxObserved (fixtures an) 38"
  then show "getCurrentGameweek an = GwNum 38"
    using getCurrentGameweek_fallback [of an 38] by simp
qed

lemma sample_currentGameweek: "getCurrentGameweek sampleAnalyzer = GwNum 10"
  by (simp add: getCurrentGameweek_def sampleAnalyzer_def upcomingFixtures_def fixture9_def
      fixture10_def fixture11_def newDate_def eventValue_def)

theorem getCurrentGameweek_resolution_witness:
  "(\<exists>f \<in> set (fixtures sampleAnalyzer). \<not> started f \<and> \<not> finished f) \<and>
   getCurrentGameweek sampleAnalyzer = GwNum 10 \<and>
   list_all (\<lambda>f. started f \<or> finished f) (fixtures seasonEnd) \<and>
   fixtures seasonEnd \<noteq> [] \<and>
   maxObserved (fixtures seasonEnd) 38 \<and>
   getCurrentGameweek seasonEnd = GwNum 38"
proof -
  have a: "\<exists>f \<in> set (fixtures sampleAnalyzer). \<not> started f \<and> \<not> finished f"
    by (simp add: sampleAnalyzer_def fixture10_def)
  have b: "(\<forall>f \<in> set (fixtures seasonEnd). started f \<or> finished f) \<and> fixtures seasonEnd \<noteq> []"
    by (simp add: seasonEnd_def fixture9_def)
  have c: "maxObserved (fixtures seasonEnd) 38"
    by (simp add: maxObserved_def seasonEnd_def fixture9_def)
  have "getCurrentGameweek seasonEnd = GwNum 38"
    using getCurrentGameweek_resolution [of seasonEnd 38] b c by blast
  moreover have "\<exists>f \<in> set (fixtures sampleAnalyzer). \<not> started f \<and> \<not> finished f \<and>
         getCurrentGameweek sampleAnalyzer = (case event f of None \<Rightarrow> GwNull | Some g \<Rightarrow> GwNum g)"
    using getCurrentGameweek_resolution [of sampleAnalyzer 38] a by blast
  moreover have "list_all (\<lambda>f. started f \<or> finished f) (fixtures seasonEnd)"
    using b by (simp add: list_all_iff)
  ultimately show ?thesis
    using a b c sample_currentGameweek by blast
qed

text \<open>
  The claim as stated fails for an analyser without fixtures: no fixture is pending, and
  the fallback is \<^verbatim>\<open>Math.min(38, Math.max() + 1)\<close>, which is \<^verbatim>\<open>-Infinity\<close> and not a
  gameweek.
\<close>

theorem no_fixtures_no_gameweek:
  "fixtures noFixtures = [] \<and>
   upcomingFixtures (fixtures noFixtures) = [] \<and>
   getCurrentGameweek noFixtures = GwNegInfinity"
  by (simp add: noFixtures_def sampleAnalyzer_def getCurrentGameweek_def upcomingFixtures_def)
subsection \<open>Upcoming fixtures of a player\<close>

lemma mapE_Inr:
  assumes "\<forall>x \<in> set xs. f x = Inr (g x)"
  shows "mapE f xs = Inr (map g xs)"
  using assms by (induction xs) simp_all

lemma mapE_Inr_set:
  assumes "mapE f xs = Inr ys" "y \<in> set ys"
  shows "\<exists>x \<in> set xs. f x = Inr y"
  using assms
proof (induction xs arbitrary: ys)
  case Nil
  then show ?case by simp
next
  case (Cons x xs)
  then obtain z zs where z: "f x = Inr z" and zs: "mapE f xs = Inr zs" and ys: "ys = z # zs"
    by (auto split: sum.splits)
  show ?case
  proof (cases "y = z")
    case True
    with z show ?thesis by simp
  next
    case False
    with Cons.prems(2) ys have "y \<in> set zs" by simp
    with Cons.IH [OF zs] show ?thesis by auto
  qed
qed

lemma null_not_target: "GwNull \<notin> set (targetGameweeks cur n)"
  by (cases cur) (auto simp: targetGameweeks_def)

lemma target_iff_horizon:
  "GwNum g \<in> set (targetGameweeks cur n) \<longleftrightarrow> g \<in> horizon cur n"
proof (cases cur)
  case GwNull
  have "(\<exists>i < n. g = int i) \<longleftrightarrow> 0 \<le> g \<and> g < int n"
    by (metis nat_less_iff of_nat_0_le_iff of_nat_less_iff int_nat_eq)
  with GwNull show ?thesis
    by (auto simp: targetGameweeks_def image_iff Bex_def)
next
  case (GwNum c)
  have "(\<exists>i < n. g = c + int i) \<longleftrightarrow> c \<le> g \<and> g < c + int n"
  proof
    assume "\<exists>i < n. g = c + int i"
    then show "c \<le> g \<and> g < c + int n" by auto
  next
    assume b: "c \<le> g \<and> g < c + int n"
    then have "nat (g - c) < n" "g = c + int (nat (g - c))" by auto
    then show "\<exists>i < n. g = c + int i" by blast
  qed
  with GwNum show ?thesis
    by (auto simp: targetGameweeks_def image_iff Bex_def)
next
  case GwNegInfinity
  then show ?thesis
    by (auto simp: targetGameweeks_def)
qed

lemma inHorizon_qualifies:
  "inHorizon (targetGameweeks cur n) player f = qualifies cur n player f"
proof (cases "event f")
  case None
  with null_not_target [of cur n] show ?thesis
    by (simp add: inHorizon_def qualifies_def eventValue_def)
next
  case (Some g)
  then show ?thesis
    using target_iff_horizon [of g cur n]
    by (auto simp: inHorizon_def qualifies_def eventValue_def)
qed

lemma inHorizon_qualifies_fun:
  "inHorizon (targetGameweeks cur n) player = qualifies cur n player"
  by (rule ext) (rule inHorizon_qualifies)

text \<open>
  The name that the code finds for an opponent is the name of the first listed team with
  the opponent's id.
\<close>

lemma teamNameOrUnknown_opponentName: "teamNameOrUnknown teams k = opponentName teams k"
  by (induction teams) (simp_all add: teamNameOrUnknown_def opponentName_def namesById_def)

lemma opponentName_unknown:
  assumes "\<forall>t \<in> set teams. team_id t \<noteq> k"
  shows "opponentName teams k = ''Unknown''"
proof -
  have "find (\<lambda>t. team_id t = k) teams = None"
    using assms unfolding find_None_iff by blast
  then show ?thesis
    unfolding teamNameOrUnknown_opponentName [symmetric] by (simp add: teamNameOrUnknown_def)
qed

lemma opponentName_first:
  assumes "i < length teams" "team_id (teams ! i) = k" "\<forall>j < i. team_id (teams ! j) \<noteq> k"
  shows "opponentName teams k = team_name (teams ! i)"
proof -
  have "find (\<lambda>t. team_id t = k) teams = Some (teams ! i)"
    unfolding find_Some_iff using assms by blast
  then show ?thesis
    unfolding teamNameOrUnknown_opponentName [symmetric] by (simp add: teamNameOrUnknown_def)
qed

lemma fixtureEntry_opponent:
  "opponent (fixtureEntry an player f)
     = opponentName (bootstrapTeams an) (opponentId (fixtureEntry an player f))"
  by (simp add: fixtureEntry_def)

lemma upcomingFixture_entry:
  assumes "element_type player \<in> {1, 2, 3, 4}"
  shows "upcomingFixture an player f = Inr (fixtureEntry an player f)"
proof -
  have "\<exists>v. getVulnerabilityScore an t (element_type player) = Inr v" for t
    using getVulnerabilityScore_range [where an = an and teamId = t and pos = "element_type player"]
      assms
    by (cases "getVulnerabilityScore an t (element_type player)") simp_all
  then obtain va vh where
    "getVulnerabilityScore an (team_a f) (element_type player) = Inr va"
    "getVulnerabilityScore an (team_h f) (element_type player) = Inr vh"
    by blast
  then show ?thesis
    by (simp add: upcomingFixture_def fixtureEntry_def Let_def teamNameOrUnknown_opponentName)
qed

lemma gameweek_sorted:
  "sorted_wrt (\<lambda>a b. gameweekOrZero a \<le> gameweekOrZero b)
     (sort_cmp (\<lambda>a b. gameweekOrZero a - gameweekOrZero b) us)"
proof -
  let ?c = "\<lambda>a b. gameweekOrZero a - gameweekOrZero b"
  have "sorted_wrt (\<lambda>a b. ?c a b \<le> 0) (sort_cmp ?c us)"
  proof (rule sorted_sort_cmp [where S = UNIV])
    fix a b d :: UpcomingFixture
    assume "?c a b \<le> 0" "?c b d \<le> 0"
    then show "?c a d \<le> 0" by linarith
  next
    fix a b :: UpcomingFixture
    show "?c a b \<le> 0 \<or> ?c b a \<le> 0" by linarith
  qed simp
  then show ?thesis by simp
qed

lemma getPlayerUpcomingFixtures_found:
  assumes "find (\<lambda>p. player_id p = playerId) (allPlayersData an) = Some player"
    and "element_type player \<in> {1, 2, 3, 4}"
  shows "getPlayerUpcomingFixtures an playerId n =
           Inr (sort_cmp (\<lambda>a b. gameweekOrZero a - gameweekOrZero b)
                  (map (fixtureEntry an player)
                     (filter (qualifies (getCurrentGameweek an) n player) (fixtures an))))"
proof -
  have "mapE (upcomingFixture an player)
          (filter (qualifies (getCurrentGameweek an) n player) (fixtures an))
      = Inr (map (fixtureEntry an player)
          (filter (qualifies (getCurrentGameweek an) n player) (fixtures an)))"
    by (rule mapE_Inr) (simp add: upcomingFixture_entry [OF assms(2)])
  then show ?thesis
    using assms(1)
    by (simp add: getPlayerUpcomingFixtures_def Let_def inHorizon_qualifies_fun)
qed

text \<open>
  Claim C6. For a player of the bootstrap (position 1 to 4) and a horizon of \<open>n\<close>
  gameweeks the list returned holds, in ascending order of gameweek, exactly one entry
  for each fixture whose gameweek is one of \<open>current, ..., current + n - 1\<close>, that has
  the player's team on either side, and that is not finished; the entry has the
  fixture's gameweek, the opponent (its id, and the name of the first bootstrap team with
  that id, \<^verbatim>\<open>'Unknown'\<close> when there is none), the home flag, the difficulty of the
  player's side, and the vulnerability score of the opponent against the player's
  position. An unknown player id gives the empty list.
\<close>

theorem getPlayerUpcomingFixtures_spec:
  "(find (\<lambda>p. player_id p = playerId) (allPlayersData an) = None \<longrightarrow>
      getPlayerUpcomingFixtures an playerId n = Inr []) \<and>
   (find (\<lambda>p. player_id p = playerId) (allPlayersData an) = Some player \<and>
    element_type player \<in> {1, 2, 3, 4} \<longrightarrow>
      (\<exists>us. getPlayerUpcomingFixtures an playerId n = Inr us \<and>
         mset us = image_mset (fixtureEntry an player)
                     (filter_mset (qualifies (getCurrentGameweek an) n player)
                        (mset (fixtures an))) \<and>
         sorted_wrt (\<lambda>a b. (case gameweek a of None \<Rightarrow> 0 | Some g \<Rightarrow> g)
                             \<le> (case gameweek b of None \<Rightarrow> 0 | Some g \<Rightarrow> g)) us \<and>
         (\<forall>u \<in> set us.
            getVulnerabilityScore an (opponentId u) (element_type player)
              = Inr (vulnerabilityScore u)) \<and>
         (\<forall>u \<in> set us.
            (\<forall>t \<in> set (bootstrapTeams an). team_id t \<noteq> opponentId u)
              \<longrightarrow> opponent u = ''Unknown'') \<and>
         (\<forall>u \<in> set us. \<forall>i < length (bootstrapTeams an).
            team_id (bootstrapTeams an ! i) = opponentId u \<and>
            (\<forall>j < i. team_id (bootstrapTeams an ! j) \<noteq> opponentId u)
              \<longrightarrow> opponent u = team_name (bootstrapTeams an ! i))))"
proof (intro conjI impI)
  assume "find (\<lambda>p. player_id p = playerId) (allPlayersData an) = None"
  then show "getPlayerUpcomingFixtures an playerId n = Inr []"
    by (simp add: getPlayerUpcomingFixtures_def)
next
  assume a: "find (\<lambda>p. player_id p = playerId) (allPlayersData an) = Some player \<and>
    element_type player \<in> {1, 2, 3, 4}"
  let ?qs = "filter (qualifies (getCurrentGameweek an) n player) (fixtures an)"
  let ?us = "sort_cmp (\<lambda>a b. gameweekOrZero a - gameweekOrZero b)
               (map (fixtureEntry an player) ?qs)"
  have run: "getPlayerUpcomingFixtures an playerId n = Inr ?us"
    using a getPlayerUpcomingFixtures_found by blast
  have m: "mset ?us = image_mset (fixtureEntry an player)
                     (filter_mset (qualifies (getCurrentGameweek an) n player)
                        (mset (fixtures an)))"
    by (simp add: mset_sort_cmp)
  have "sorted_wrt (\<lambda>a b. gameweekOrZero a \<le> gameweekOrZero b) ?us"
    by (rule gameweek_sorted)
  then have srt: "sorted_wrt (\<lambda>a b. (case gameweek a of None \<Rightarrow> 0 | Some g \<Rightarrow> g)
                             \<le> (case gameweek b of None \<Rightarrow> 0 | Some g \<Rightarrow> g)) ?us"
    unfolding gameweekOrZero_def .
  have ent: "\<exists>f. u = fixtureEntry an player f" if "u \<in> set ?us" for u
    using that by (auto simp: set_sort_cmp)
  have vs: "getVulnerabilityScore an (opponentId u) (element_type player)
              = Inr (vulnerabilityScore u)" if u_in: "u \<in> set ?us" for u
  proof -
    obtain f where u: "u = fixtureEntry an player f"
      using ent [OF u_in] by blast
    have "upcomingFixture an player f = Inr u"
      using a u upcomingFixture_entry by simp
    then show ?thesis
      by (auto simp: upcomingFixture_def Let_def split: sum.splits if_splits)
  qed
  have opp: "opponent u = opponentName (bootstrapTeams an) (opponentId u)"
    if u_in: "u \<in> set ?us" for u
    using ent [OF u_in] fixtureEntry_opponent by blast
  have unk: "\<forall>u \<in> set ?us.
      (\<forall>t \<in> set (bootstrapTeams an). team_id t \<noteq> opponentId u) \<longrightarrow> opponent u = ''Unknown''"
    using opp opponentName_unknown by simp
  have nam: "\<forall>u \<in> set ?us. \<forall>i < length (bootstrapTeams an).
      team_id (bootstrapTeams an ! i) = opponentId u \<and>
      (\<forall>j < i. team_id (bootstrapTeams an ! j) \<noteq> opponentId u)
        \<longrightarrow> opponent u = team_name (bootstrapTeams an ! i)"
    using opp opponentName_first by simp
  show "\<exists>us. getPlayerUpcomingFixtures an playerId n = Inr us \<and>
         mset us = image_mset (fixtureEntry an player)
                     (filter_mset (qualifies (getCurrentGameweek an) n player)
                        (mset (fixtures an))) \<and>
         sorted_wrt (\<lambda>a b. (case gameweek a of None \<Rightarrow> 0 | Some g \<Rightarrow> g)
                             \<le> (case gameweek b of None \<Rightarrow> 0 | Some g \<Rightarrow> g)) us \<and>
         (\<forall>u \<in> set us.
            getVulnerabilityScore an (opponentId u) (element_type player)
              = Inr (vulnerabilityScore u)) \<and>
         (\<forall>u \<in> set us.
            (\<forall>t \<in> set (bootstrapTeams an). team_id t \<noteq> opponentId u)
              \<longrightarrow> opponent u = ''Unknown'') \<and>
         (\<forall>u \<in> set us. \<forall>i < length (bootstrapTeams an).
            team_id (bootstrapTeams an ! i) = opponentId u \<and>
            (\<forall>j < i. team_id (bootstrapTeams an ! j) \<noteq> opponentId u)
              \<longrightarrow> opponent u = team_name (bootstrapTeams an ! i))"
    using run m srt vs unk nam by blast
qed

lemma sample_find_9:
  "find (\<lambda>p. player_id p = 9) (allPlayersData sampleAnalyzer) = Some forward9"
  by (simp add: sampleAnalyzer_def samplePlayers_def forward9_def)

lemma forward9_fields: "element_type forward9 = 4" "team forward9 = 5" "player_id forward9 = 9"
  by (simp_all add: forward9_def)

lemma sample_qualifies:
  "qualifies (GwNum 10) 2 forward9 fixture11" "\<not> qualifies (GwNum 10) 2 forward9 fixture9"
  "qualifies (GwNum 10) 2 forward9 fixture10"
  by (simp_all add: qualifies_def forward9_fields fixture9_def fixture10_def fixture11_def)

lemma sample_entries:
  "fixtureEntry sampleAnalyzer forward9 fixture10 =
     \<lparr>gameweek = Some 10, opponent = ''Team X'', opponentId = 3, isHome = True,
      difficulty = 2, vulnerabilityScore = 10\<rparr>"
  "fixtureEntry sampleAnalyzer forward9 fixture11 =
     \<lparr>gameweek = Some 11, opponent = ''Team X'', opponentId = 3, isHome = False,
      difficulty = 5, vulnerabilityScore = 10\<rparr>"
proof -
  have n: "opponentName (bootstrapTeams sampleAnalyzer) 3 = ''Team X''"
    by (simp add: opponentName_def namesById_def sampleAnalyzer_def sampleTeams_def teamX_def)
  show "fixtureEntry sampleAnalyzer forward9 fixture10 =
     \<lparr>gameweek = Some 10, opponent = ''Team X'', opponentId = 3, isHome = True,
      difficulty = 2, vulnerabilityScore = 10\<rparr>"
    using n by (simp add: fixtureEntry_def forward9_fields fixture10_def sample_score_X)
  show "fixtureEntry sampleAnalyzer forward9 fixture11 =
     \<lparr>gameweek = Some 11, opponent = ''Team X'', opponentId = 3, isHome = False,
      difficulty = 5, vulnerabilityScore = 10\<rparr>"
    using n by (simp add: fixtureEntry_def forward9_fields fixture11_def sample_score_X)
qed

theorem getPlayerUpcomingFixtures_spec_witness:
  "find (\<lambda>p. player_id p = 9) (allPlayersData sampleAnalyzer) = Some forward9 \<and>
   element_type forward9 \<in> {1, 2, 3, 4} \<and>
   (\<exists>us. getPlayerUpcomingFixtures sampleAnalyzer 9 2 = Inr us \<and>
      mset us =
        {#\<lparr>gameweek = Some 11, opponent = ''Team X'', opponentId = 3, isHome = False,
           difficulty = 5, vulnerabilityScore = 10\<rparr>,
          \<lparr>gameweek = Some 10, opponent = ''Team X'', opponentId = 3, isHome = True,
           difficulty = 2, vulnerabilityScore = 10\<rparr>#}) \<and>
   find (\<lambda>p. player_id p = 77) (allPlayersData sampleAnalyzer) = None \<and>
   getPlayerUpcomingFixtures sampleAnalyzer 77 2 = Inr []"
proof -
  have e: "element_type forward9 \<in> {1, 2, 3, 4}"
    by (simp add: forward9_fields)
  have none: "find (\<lambda>p. player_id p = 77) (allPlayersData sampleAnalyzer) = None"
    by (simp add: sampleAnalyzer_def samplePlayers_def forward9_def forward8_def)
  have fs: "fixtures sampleAnalyzer = [fixture11, fixture9, fixture10]"
    by (simp add: sampleAnalyzer_def)
  have "image_mset (fixtureEntry sampleAnalyzer forward9)
          (filter_mset (qualifies (getCurrentGameweek sampleAnalyzer) 2 forward9)
             (mset (fixtures sampleAnalyzer)))
      = {#fixtureEntry sampleAnalyzer forward9 fixture11,
          fixtureEntry sampleAnalyzer forward9 fixture10#}"
    by (simp add: fs sample_currentGameweek sample_qualifies)
  then have "\<exists>us. getPlayerUpcomingFixtures sampleAnalyzer 9 2 = Inr us \<and>
      mset us = {#fixtureEntry sampleAnalyzer forward9 fixture11,
                  fixtureEntry sampleAnalyzer forward9 fixture10#}"
    using getPlayerUpcomingFixtures_spec [of 9 sampleAnalyzer 2 forward9] sample_find_9 e
    by auto
  moreover have "getPlayerUpcomingFixtures sampleAnalyzer 77 2 = Inr []"
    using getPlayerUpcomingFixtures_spec [of 77 sampleAnalyzer 2 forward9] none by blast
  ultimately show ?thesis
    using sample_find_9 e none by (simp add: sample_entries)
qed

subsection \<open>Who is ranked\<close>

lemma mapE_Inr_complete:
  assumes "mapE f xs = Inr ys" "x \<in> set xs"
  shows "\<exists>y \<in> set ys. f x = Inr y"
  using assms
proof (induction xs arbitrary: ys)
  case Nil
  then show ?case by simp
next
  case (Cons a xs)
  then obtain z zs where z: "f a = Inr z" and zs: "mapE f xs = Inr zs" and ys: "ys = z # zs"
    by (auto split: sum.splits)
  show ?case
  proof (cases "x = a")
    case True
    with z ys show ?thesis by simp
  next
    case False
    with Cons.prems(2) have "x \<in> set xs" by simp
    with Cons.IH [OF zs] ys show ?thesis by auto
  qed
qed

lemma mapE_total:
  assumes "\<forall>x \<in> set xs. \<exists>y. f x = Inr y"
  shows "\<exists>ys. mapE f xs = Inr ys"
  using assms
proof (induction xs)
  case Nil
  show ?case by simp
next
  case (Cons a xs)
  then obtain y ys where "f a = Inr y" "mapE f xs = Inr ys"
    by auto
  then show ?case by simp
qed

lemma set_rankPosition: "set (rankPosition fp engine pa k) = {e \<in> set pa. positionId e = k}"
  by (auto simp: rankPosition_def set_arraySort)

lemma analyzePlayer_Inr:
  assumes "analyzePlayer fp an n p = Inr e"
  shows "getPlayerUpcomingFixtures an (player_id p) n = Inr (pa_fixtures e) \<and>
         pa_id e = player_id p \<and> positionId e = element_type p \<and>
         fixturesCount e = length (pa_fixtures e)"
proof (cases "getPlayerUpcomingFixtures an (player_id p) n")
  case (Inl err)
  with assms show ?thesis by (simp add: analyzePlayer_def)
next
  case (Inr fs)
  with assms show ?thesis by (auto simp: analyzePlayer_def Let_def)
qed

lemma analyzePlayer_of_fixtures:
  assumes "getPlayerUpcomingFixtures an (player_id p) n = Inr fs"
  shows "\<exists>e. analyzePlayer fp an n p = Inr e \<and> pa_fixtures e = fs \<and> pa_id e = player_id p \<and>
             positionId e = element_type p \<and> fixturesCount e = length fs"
  using assms by (simp add: analyzePlayer_def Let_def)

lemma analyzeTimeHorizon_Inr:
  assumes "analyzeTimeHorizon fp engine an n = Inr res"
  shows "\<exists>analysed.
           mapE (analyzePlayer fp an n) (filter eligible (allPlayersData an)) = Inr analysed \<and>
           (\<forall>k \<in> {1, 2, 3, 4}.
              set (positionList res k)
                = {e \<in> set analysed. 0 < fixturesCount e \<and> positionId e = k})"
proof (cases "mapE (analyzePlayer fp an n) (filter eligible (allPlayersData an))")
  case (Inl err)
  with assms show ?thesis by (simp add: analyzeTimeHorizon_def)
next
  case (Inr analysed)
  with assms have res: "res =
      \<lparr>Goalkeeper = rankPosition fp engine (filter (\<lambda>p. 0 < fixturesCount p) analysed) 1,
       Defender = rankPosition fp engine (filter (\<lambda>p. 0 < fixturesCount p) analysed) 2,
       Midfielder = rankPosition fp engine (filter (\<lambda>p. 0 < fixturesCount p) analysed) 3,
       Forward = rankPosition fp engine (filter (\<lambda>p. 0 < fixturesCount p) analysed) 4\<rparr>"
    by (simp add: analyzeTimeHorizon_def Let_def)
  have "\<forall>k \<in> {1, 2, 3, 4}.
      set (positionList res k) = {e \<in> set analysed. 0 < fixturesCount e \<and> positionId e = k}"
    unfolding res positionList_def by (auto simp: set_rankPosition)
  with Inr show ?thesis by blast
qed

lemma set_ranked: "set (ranked res) = (\<Union>k \<in> {1, 2, 3, 4}. set (positionList res k))"
  by (auto simp: ranked_def positionList_def)

lemma ranked_entry:
  assumes "analyzeTimeHorizon fp engine an n = Inr res" "e \<in> set (ranked res)"
  shows "0 < fixturesCount e \<and>
         (\<exists>p \<in> set (allPlayersData an).
            status p = ''a'' \<and> 200 < minutes p \<and> pa_id e = player_id p \<and>
            positionId e = element_type p \<and>
            getPlayerUpcomingFixtures an (player_id p) n = Inr (pa_fixtures e) \<and>
            pa_fixtures e \<noteq> [])"
proof -
  obtain analysed where
    m: "mapE (analyzePlayer fp an n) (filter eligible (allPlayersData an)) = Inr analysed"
    and l: "\<forall>k \<in> {1, 2, 3, 4}.
       set (positionList res k) = {e \<in> set analysed. 0 < fixturesCount e \<and> positionId e = k}"
    using analyzeTimeHorizon_Inr [OF assms(1)] by blast
  obtain k where "k \<in> {1, 2, 3, 4}" "e \<in> set (positionList res k)"
    using assms(2) unfolding set_ranked by blast
  then have e: "e \<in> set analysed" "0 < fixturesCount e"
    using l by auto
  then obtain p where p: "p \<in> set (filter eligible (allPlayersData an))"
    and ap: "analyzePlayer fp an n p = Inr e"
    using mapE_Inr_set [OF m] by blast
  have "pa_fixtures e \<noteq> []"
    using analyzePlayer_Inr [OF ap] e(2) by auto
  with p e(2) analyzePlayer_Inr [OF ap] show ?thesis
    by (auto simp: eligible_def)
qed

lemma no_fixtures_not_ranked:
  assumes "analyzeTimeHorizon fp engine an n = Inr res"
    and "getPlayerUpcomingFixtures an playerId n = Inr []"
    and "e \<in> set (ranked res)"
  shows "pa_id e \<noteq> playerId"
proof
  assume "pa_id e = playerId"
  then have "pa_fixtures e = []"
    using ranked_entry [OF assms(1,3)] assms(2) by auto
  with ranked_entry [OF assms(1,3)] show False by blast
qed

lemma eligible_is_ranked:
  assumes "analyzeTimeHorizon fp engine an n = Inr res" "p \<in> set (allPlayersData an)"
    and "status p = ''a''" "200 < minutes p" "element_type p \<in> {1, 2, 3, 4}"
    and "getPlayerUpcomingFixtures an (player_id p) n = Inr fs" "fs \<noteq> []"
  shows "\<exists>e \<in> set (positionList res (element_type p)).
           pa_id e = player_id p \<and> pa_fixtures e = fs"
proof -
  obtain analysed where
    m: "mapE (analyzePlayer fp an n) (filter eligible (allPlayersData an)) = Inr analysed"
    and l: "\<forall>k \<in> {1, 2, 3, 4}.
       set (positionList res k) = {e \<in> set analysed. 0 < fixturesCount e \<and> positionId e = k}"
    using analyzeTimeHorizon_Inr [OF assms(1)] by blast
  have "p \<in> set (filter eligible (allPlayersData an))"
    using assms(2-4) by (simp add: eligible_def)
  then obtain e where e: "e \<in> set analysed" "analyzePlayer fp an n p = Inr e"
    using mapE_Inr_complete [OF m] by blast
  then have f: "pa_fixtures e = fs" "pa_id e = player_id p" "positionId e = element_type p"
    "fixturesCount e = length fs"
    using analyzePlayer_Inr [OF e(2)] assms(6) by simp_all
  have "set (positionList res (element_type p))
      = {e \<in> set analysed. 0 < fixturesCount e \<and> positionId e = element_type p}"
    using l assms(5) by blast
  with f have "e \<in> set (positionList res (element_type p))"
    using e(1) assms(7) by simp
  with f show ?thesis by blast
qed

lemma analyzeTimeHorizon_total:
  assumes "\<forall>p \<in> set (allPlayersData an). element_type p \<in> {1, 2, 3, 4}"
  shows "\<exists>res. analyzeTimeHorizon fp engine an n = Inr res"
proof -
  have "\<exists>e. analyzePlayer fp an n p = Inr e" for p
  proof (cases "find (\<lambda>q. player_id q = player_id p) (allPlayersData an)")
    case None
    then have "getPlayerUpcomingFixtures an (player_id p) n = Inr []"
      by (simp add: getPlayerUpcomingFixtures_def)
    then show ?thesis
      using analyzePlayer_of_fixtures by blast
  next
    case (Some q)
    then have "q \<in> set (allPlayersData an)"
      by (auto simp: find_Some_iff)
    then have "element_type q \<in> {1, 2, 3, 4}"
      using assms by blast
    with Some show ?thesis
      using getPlayerUpcomingFixtures_found [of "player_id p" an q n] analyzePlayer_of_fixtures
      by blast
  qed
  then obtain analysed where
    "mapE (analyzePlayer fp an n) (filter eligible (allPlayersData an)) = Inr analysed"
    using mapE_total [of "filter eligible (allPlayersData an)" "analyzePlayer fp an n"] by blast
  then show ?thesis
    by (simp add: analyzeTimeHorizon_def Let_def)
qed

text \<open>
  Claim C7. Every entry of a ranked list comes from a player of the bootstrap with
  status \<^verbatim>\<open>'a'\<close> (the feed's code for available) and more than 200 minutes, and has at
  least one qualifying fixture; a player whose fixture list for the horizon is empty has
  no entry; a player that passes the filter and has a fixture is in the list of its
  position. The analysis returns whenever every player has a position 1 to 4.
\<close>

theorem analyzeTimeHorizon_eligibility:
  "(analyzeTimeHorizon fp engine an n = Inr res \<longrightarrow>
      (\<forall>e \<in> set (ranked res).
         0 < fixturesCount e \<and>
         (\<exists>p \<in> set (allPlayersData an).
            status p = ''a'' \<and> 200 < minutes p \<and> pa_id e = player_id p \<and>
            positionId e = element_type p \<and>
            getPlayerUpcomingFixtures an (player_id p) n = Inr (pa_fixtures e) \<and>
            pa_fixtures e \<noteq> [])) \<and>
      (\<forall>e \<in> set (ranked res). \<forall>playerId.
         getPlayerUpcomingFixtures an playerId n = Inr [] \<longrightarrow> pa_id e \<noteq> playerId) \<and>
      (\<forall>p \<in> set (allPlayersData an). \<forall>fs.
         status p = ''a'' \<and> 200 < minutes p \<and> element_type p \<in> {1, 2, 3, 4} \<and>
         getPlayerUpcomingFixtures an (player_id p) n = Inr fs \<and> fs \<noteq> []
         \<longrightarrow> (\<exists>e \<in> set (positionList res (element_type p)).
                pa_id e = player_id p \<and> pa_fixtures e = fs))) \<and>
   ((\<forall>p \<in> set (allPlayersData an). element_type p \<in> {1, 2, 3, 4}) \<longrightarrow>
      (\<exists>r. analyzeTimeHorizon fp engine an n = Inr r))"
proof (intro conjI impI ballI allI)
  fix e
  assume "analyzeTimeHorizon fp engine an n = Inr res" "e \<in> set (ranked res)"
  then have r: "0 < fixturesCount e \<and>
         (\<exists>p \<in> set (allPlayersData an).
            status p = ''a'' \<and> 200 < minutes p \<and> pa_id e = player_id p \<and>
            positionId e = element_type p \<and>
            getPlayerUpcomingFixtures an (player_id p) n = Inr (pa_fixtures e) \<and>
            pa_fixtures e \<noteq> [])"
    by (rule ranked_entry)
  from r show "0 < fixturesCount e" by blast
  from r show "\<exists>p \<in> set (allPlayersData an).
            status p = ''a'' \<and> 200 < minutes p \<and> pa_id e = player_id p \<and>
            positionId e = element_type p \<and>
            getPlayerUpcomingFixtures an (player_id p) n = Inr (pa_fixtures e) \<and>
            pa_fixtures e \<noteq> []" by blast
next
  fix e playerId
  assume "analyzeTimeHorizon fp engine an n = Inr res" "e \<in> set (ranked res)"
    "getPlayerUpcomingFixtures an playerId n = Inr []"
  then show "pa_id e \<noteq> playerId"
    using no_fixtures_not_ranked by blast
next
  fix p fs
  assume "analyzeTimeHorizon fp engine an n = Inr res" "p \<in> set (allPlayersData an)"
    "status p = ''a'' \<and> 200 < minutes p \<and> element_type p \<in> {1, 2, 3, 4} \<and>
         getPlayerUpcomingFixtures an (player_id p) n = Inr fs \<and> fs \<noteq> []"
  then show "\<exists>e \<in> set (positionList res (element_type p)).
                pa_id e = player_id p \<and> pa_fixtures e = fs"
    using eligible_is_ranked [where an = an and n = n and res = res and p = p and fs = fs] by blast
next
  assume "\<forall>p \<in> set (allPlayersData an). element_type p \<in> {1, 2, 3, 4}"
  then show "\<exists>r. analyzeTimeHorizon fp engine an n = Inr r"
    by (rule analyzeTimeHorizon_total)
qed

lemma horizon_players:
  "allPlayersData horizonAnalyzer
     = [forward9, starter_900, forward9\<lparr>player_id := 6, minutes := 100\<rparr>]"
  "fixtures horizonAnalyzer = [fixture11, fixture9, fixture10]"
  by (simp_all add: horizonAnalyzer_def sampleAnalyzer_def)

lemma horizon_currentGameweek: "getCurrentGameweek horizonAnalyzer = GwNum 10"
  by (simp add: getCurrentGameweek_def horizon_players upcomingFixtures_def fixture9_def
      fixture10_def fixture11_def newDate_def eventValue_def)

lemma horizon_fixtures_9:
  "getPlayerUpcomingFixtures horizonAnalyzer 9 1 = Inr [fixtureEntry horizonAnalyzer forward9 fixture10]"
proof -
  have "find (\<lambda>p. player_id p = 9) (allPlayersData horizonAnalyzer) = Some forward9"
    by (simp add: horizon_players forward9_def)
  moreover have "element_type forward9 \<in> {1, 2, 3, 4}"
    by (simp add: forward9_def)
  moreover have "filter (qualifies (GwNum 10) 1 forward9) [fixture11, fixture9, fixture10]
      = [fixture10]"
    by (simp add: qualifies_def forward9_def fixture9_def fixture10_def fixture11_def)
  ultimately show ?thesis
    using getPlayerUpcomingFixtures_found [of 9 horizonAnalyzer forward9 1]
    by (simp add: horizon_currentGameweek horizon_players)
qed

lemma horizon_fixtures_7: "getPlayerUpcomingFixtures horizonAnalyzer 7 1 = Inr []"
proof -
  have "find (\<lambda>p. player_id p = 7) (allPlayersData horizonAnalyzer) = Some starter_900"
    by (simp add: horizon_players forward9_def starter_900_def)
  moreover have "element_type starter_900 \<in> {1, 2, 3, 4}"
    by (simp add: starter_900_def)
  moreover have "filter (qualifies (GwNum 10) 1 starter_900) [fixture11, fixture9, fixture10] = []"
    by (simp add: qualifies_def starter_900_def fixture9_def fixture10_def fixture11_def)
  ultimately show ?thesis
    using getPlayerUpcomingFixtures_found [of 7 horizonAnalyzer starter_900 1]
    by (simp add: horizon_currentGameweek horizon_players)
qed

theorem analyzeTimeHorizon_eligibility_witness:
  "status forward9 = ''a'' \<and> 200 < minutes forward9 \<and>
   status starter_900 = ''a'' \<and> 200 < minutes starter_900 \<and>
   getPlayerUpcomingFixtures horizonAnalyzer (player_id starter_900) 1 = Inr [] \<and>
   \<not> 200 < minutes (forward9\<lparr>player_id := 6, minutes := 100\<rparr>) \<and>
   (\<exists>res. analyzeTimeHorizon halfUp reversing horizonAnalyzer 1 = Inr res \<and>
      (\<exists>e \<in> set (Forward res). pa_id e = 9) \<and>
      pa_id ` set (ranked res) = {9})"
proof -
  let ?bench = "forward9\<lparr>player_id := 6, minutes := 100\<rparr>"
  have el: "status forward9 = ''a''" "200 < minutes forward9"
    "status starter_900 = ''a''" "200 < minutes starter_900" "\<not> 200 < minutes ?bench"
    by (simp_all add: forward9_def starter_900_def)
  have ids: "player_id forward9 = 9" "player_id starter_900 = 7" "player_id ?bench = 6"
    "element_type forward9 = 4"
    by (simp_all add: forward9_def starter_900_def)
  have pos: "\<forall>p \<in> set (allPlayersData horizonAnalyzer). element_type p \<in> {1, 2, 3, 4}"
    by (simp add: horizon_players forward9_def starter_900_def)
  then obtain res where res: "analyzeTimeHorizon halfUp reversing horizonAnalyzer 1 = Inr res"
    using analyzeTimeHorizon_eligibility [where fp = halfUp and engine = reversing
        and an = horizonAnalyzer and n = 1] by blast
  note t = analyzeTimeHorizon_eligibility [where fp = halfUp and engine = reversing
      and an = horizonAnalyzer and n = 1 and res = res]
  have in9: "\<exists>e \<in> set (positionList res (element_type forward9)). pa_id e = player_id forward9"
  proof -
    have "forward9 \<in> set (allPlayersData horizonAnalyzer)"
      by (simp add: horizon_players)
    moreover have "getPlayerUpcomingFixtures horizonAnalyzer (player_id forward9) 1
        = Inr [fixtureEntry horizonAnalyzer forward9 fixture10]"
      unfolding ids by (rule horizon_fixtures_9)
    ultimately show ?thesis
      using t res el(1,2) ids(4) by fastforce
  qed
  then have fwd: "\<exists>e \<in> set (Forward res). pa_id e = 9"
    by (simp add: ids positionList_def)
  have only9: "pa_id e = 9" if e_in: "e \<in> set (ranked res)" for e
  proof -
    obtain p where p: "p \<in> set (allPlayersData horizonAnalyzer)" "status p = ''a''"
      "200 < minutes p" "pa_id e = player_id p"
      "getPlayerUpcomingFixtures horizonAnalyzer (player_id p) 1 = Inr (pa_fixtures e)"
      "pa_fixtures e \<noteq> []"
      using t res e_in by blast
    from p(1) have "p = forward9 \<or> p = starter_900 \<or> p = ?bench"
      by (simp add: horizon_players)
    then show ?thesis
    proof (elim disjE)
      assume "p = forward9"
      with p(4) show ?thesis by (simp add: ids)
    next
      assume "p = starter_900"
      with p(5,6) horizon_fixtures_7 show ?thesis by (simp only: ids) simp
    next
      assume "p = ?bench"
      with p(3) el(5) show ?thesis by simp
    qed
  qed
  have "set (Forward res) \<subseteq> set (ranked res)"
    by (auto simp: ranked_def)
  with fwd only9 have "pa_id ` set (ranked res) = {9}"
    by auto
  moreover have "getPlayerUpcomingFixtures horizonAnalyzer (player_id starter_900) 1 = Inr []"
    unfolding ids by (rule horizon_fixtures_7)
  ultimately show ?thesis
    using res fwd el by blast
qed

subsection \<open>Averages and zero denominators\<close>

text \<open>
  Claim C9. Every average is to be guarded against a zero denominator. The average
  vulnerability of a player is (\<open>fixtures.length > 0 ? ... : 0\<close>), and the defence table
  divides only for teams with games > 0; the team-performance analysis divides the total
  points by the player count with no guard. For a bootstrap with the two teams and one
  player of Team Y, Team X has no player: its average is \<^verbatim>\<open>0 / 0\<close>, rendered
  \<^verbatim>\<open>NaN\<close>, where the claim promises 0.
\<close>

theorem analyzeTeamPerformance_unguarded:
  "analyzeTeamPerformance fp sampleTeams [forward9] =
     [\<lparr>ts_name = ''Team Y'', ts_totalPoints = 60, playerCount = 1, averagePoints = Num 60,
       totalGoals = 5, totalAssists = 2, cleanSheets = 0\<rparr>,
      \<lparr>ts_name = ''Team X'', ts_totalPoints = 0, playerCount = 0, averagePoints = NaN,
       totalGoals = 0, totalAssists = 0, cleanSheets = 0\<rparr>]"
proof -
  have "toFixed fp 1 60 = 60"
    using toFixed_of_grid [of fp 1 600] by simp
  then show ?thesis
    by (simp add: analyzeTeamPerformance_def initTeamStats_def sampleTeams_def teamX_def
        teamY_def addPlayerStats_def forward9_def starter_900_def obj_get_def
        calculateAverage_def js_div_def obj_values_def)
qed

subsection \<open>Regular starters\<close>

lemma estimatedGamesPlayed_pos: "0 < estimatedGamesPlayed player"
  by (simp add: estimatedGamesPlayed_def)

lemma estimatedGamesPlayed_bound:
  assumes "450 \<le> minutes player"
  shows "60 * estimatedGamesPlayed player \<le> minutes player"
proof -
  let ?m = "minutes player"
  have "\<lceil>(of_int ?m :: rat) / 90\<rceil> \<le> ?m div 90 + 1"
    by (simp add: ceiling_le_iff)
  then have "estimatedGamesPlayed player \<le> ?m div 90 + 1"
    using assms by (simp add: estimatedGamesPlayed_def)
  then show ?thesis
    using assms by linarith
qed

lemma avgMinutesPerGame_ge_60:
  assumes "450 \<le> minutes player"
  shows "60 \<le> avgMinutesPerGame player"
proof -
  have "(60::rat) * of_int (estimatedGamesPlayed player) \<le> of_int (minutes player)"
    using estimatedGamesPlayed_bound [OF assms]
    by (metis of_int_le_iff of_int_mult of_int_numeral)
  moreover have "(0::rat) < of_int (estimatedGamesPlayed player)"
    using estimatedGamesPlayed_pos by simp
  ultimately show ?thesis
    by (simp add: avgMinutesPerGame_def pos_le_divide_eq)
qed

text \<open>
  Claim C10. For every player with at least 450 minutes the estimated average minutes per
  game, minutes / max(1, ceil(minutes / 90)), is at least 60, so the regular-starter
  predicate is the same as: minutes at least 450, and form non-zero or minutes at least
  1800.
\<close>

theorem isRegularStarter_simplified:
  "(450 \<le> minutes player \<longrightarrow> 60 \<le> avgMinutesPerGame player) \<and>
   isRegularStarter player =
     (450 \<le> minutes player \<and> (form player \<noteq> 0 \<or> 1800 \<le> minutes player))"
  using avgMinutesPerGame_ge_60 [of player]
  by (auto simp: isRegularStarter_def hasRecentPlayingTime_def)

theorem isRegularStarter_simplified_witness:
  "450 \<le> minutes (starter_900 :: Player) \<and> 60 \<le> avgMinutesPerGame starter_900 \<and>
   isRegularStarter starter_900 \<and> \<not> isRegularStarter (starter_900\<lparr>form := 0\<rparr>)"
  using isRegularStarter_simplified [of starter_900]
    isRegularStarter_simplified [of "starter_900\<lparr>form := 0\<rparr>"]
  by (simp add: starter_900_def)

end
